theory Spec2Isabelle
  imports Main "HOL-Library.Word" "HOL-Library.Sublist"
begin

section \<open>Errors\<close>

text \<open>
  Every failure of the crypto subsystem is a plain \<open>Error\<close> built by
  \<open>ErrorHandler.logAndThrow(source, message)\<close>; one constructor stands for one message
  template of the source. \<open>PlatformFailure\<close> stands for an exception thrown by a library
  call (argon2, Web Crypto).
\<close>

datatype error =
    MissingPrefix
  | InvalidPartCount nat nat
  | UnsupportedVersion string
  | MissingComponents "string list"
  | InvalidComponents "string list"
  | InvalidEncryptedDataFormat
  | HmacMismatch
  | SecretKeyVariableNotFound string
  | SecretKeyNotNonEmptyString
  | SecretKeyTooShort
  | ValueNotNonEmptyString string
  | SecretKeyInputEmpty string
  | Base64FieldEmpty string
  | Base64FieldInvalid string
  | LengthTooSmall nat
  | LengthTooLarge nat
  | SecretKeyMissingInFile string
  | PlatformFailure string

datatype error_kind = ValidationError | AuthenticationError | ConfigurationError | LibraryError

text \<open>The taxonomy of the design document, attached to the messages of the source.\<close>

fun kind_of :: "error \<Rightarrow> error_kind" where
  "kind_of HmacMismatch = AuthenticationError"
| "kind_of (SecretKeyVariableNotFound _) = ConfigurationError"
| "kind_of (SecretKeyMissingInFile _) = ConfigurationError"
| "kind_of (PlatformFailure _) = LibraryError"
| "kind_of _ = ValidationError"

section \<open>Bytes and base64 as Node's Buffer handles them\<close>

type_synonym byte = "8 word"

definition base64_alphabet :: string where
  "base64_alphabet = ''ABCDEFGHIJKLMNOPQRSTUVWXYZabcdefghijklmnopqrstuvwxyz0123456789+/''"

definition is_base64_char :: "char \<Rightarrow> bool" where
  "is_base64_char c = (c \<in> set base64_alphabet)"

fun index_of :: "'a \<Rightarrow> 'a list \<Rightarrow> nat" where
  "index_of x [] = 0"
| "index_of x (y # ys) = (if x = y then 0 else Suc (index_of x ys))"

definition sextet_char :: "nat \<Rightarrow> char" where
  "sextet_char n = base64_alphabet ! n"

text \<open>
  The decoding table of Node's \<open>Buffer.from(s, "base64")\<close> also reads the two characters of
  the URL-safe alphabet: \<open>-\<close> is 62 like \<open>+\<close>, and \<open>_\<close> is 63 like \<open>/\<close>.
\<close>

definition is_sextet_char :: "char \<Rightarrow> bool" where
  "is_sextet_char c = (is_base64_char c \<or> c = CHR ''-'' \<or> c = CHR ''_'')"

definition char_sextet :: "char \<Rightarrow> nat" where
  "char_sextet c =
     (if c = CHR ''-'' then 62 else if c = CHR ''_'' then 63 else index_of c base64_alphabet)"

text \<open>\<open>buffer.toString("base64")\<close>: RFC 4648 with \<open>=\<close> padding.\<close>

fun base64_encode :: "byte list \<Rightarrow> string" where
  "base64_encode (x # y # z # rest) =
     sextet_char (unat x div 4) #
     sextet_char ((unat x mod 4) * 16 + unat y div 16) #
     sextet_char ((unat y mod 16) * 4 + unat z div 64) #
     sextet_char (unat z mod 64) # base64_encode rest"
| "base64_encode [x, y] =
     [sextet_char (unat x div 4),
      sextet_char ((unat x mod 4) * 16 + unat y div 16),
      sextet_char ((unat y mod 16) * 4), CHR ''='']"
| "base64_encode [x] =
     [sextet_char (unat x div 4), sextet_char ((unat x mod 4) * 16), CHR ''='', CHR ''='']"
| "base64_encode [] = []"

text \<open>
  \<open>Buffer.from(s, "base64")\<close> never throws on a string. It stops at the first \<open>=\<close>, skips
  every other character that its table does not read as a sextet, decodes the sextets it
  found and drops the bits left over after the last whole byte.
\<close>

fun sextets_to_bytes :: "nat list \<Rightarrow> byte list" where
  "sextets_to_bytes (a # b # c # d # rest) =
     of_nat (a * 4 + b div 16) # of_nat ((b mod 16) * 16 + c div 4) #
     of_nat ((c mod 4) * 64 + d) # sextets_to_bytes rest"
| "sextets_to_bytes [a, b, c] = [of_nat (a * 4 + b div 16), of_nat ((b mod 16) * 16 + c div 4)]"
| "sextets_to_bytes [a, b] = [of_nat (a * 4 + b div 16)]"
| "sextets_to_bytes _ = []"

definition base64_decode :: "string \<Rightarrow> byte list" where
  "base64_decode s =
     sextets_to_bytes
       (map char_sextet (filter is_sextet_char (takeWhile (\<lambda>c. c \<noteq> CHR ''='') s)))"

definition Buffer_from_base64 :: "string \<Rightarrow> error + byte list" where
  "Buffer_from_base64 s = Inr (base64_decode s)"

section \<open>Format constants (crypto.config)\<close>

definition FORMAT_PREFIX :: string where "FORMAT_PREFIX = ''ENC2:''"
definition FORMAT_VERSION :: string where "FORMAT_VERSION = ''v1''"
definition FORMAT_SEPARATOR :: char where "FORMAT_SEPARATOR = CHR '':''"
definition FORMAT_EXPECTED_PARTS :: nat where "FORMAT_EXPECTED_PARTS = 5"

definition BYTE_LENGTHS_WEB_CRYPTO_IV :: nat where "BYTE_LENGTHS_WEB_CRYPTO_IV = 12"
definition BYTE_LENGTHS_SALT :: nat where "BYTE_LENGTHS_SALT = 32"
definition BYTE_LENGTHS_SECRET_KEY :: nat where "BYTE_LENGTHS_SECRET_KEY = 32"
definition BYTE_LENGTHS_HMAC_KEY_LENGTH :: nat where "BYTE_LENGTHS_HMAC_KEY_LENGTH = 32"
definition ARGON2_MEMORY_COST :: nat where "ARGON2_MEMORY_COST = 262144"
definition ARGON2_TIME_COST :: nat where "ARGON2_TIME_COST = 4"
definition ARGON2_PARALLELISM :: nat where "ARGON2_PARALLELISM = 3"
definition MAX_REASONABLE_LENGTH :: nat where "MAX_REASONABLE_LENGTH = 4096"
definition MIN_SECURE_LENGTH :: nat where "MIN_SECURE_LENGTH = 8"

section \<open>String helpers of the JavaScript runtime\<close>

text \<open>\<open>s.split(sep)\<close> for a one-character separator; \<open>"".split(":")\<close> is \<open>[""]\<close>.\<close>

fun split_sep :: "char \<Rightarrow> string \<Rightarrow> string list" where
  "split_sep sep [] = [] # []"
| "split_sep sep (c # cs) =
     (if c = sep then [] # split_sep sep cs
      else (case split_sep sep cs of [] \<Rightarrow> [c] # [] | p # ps \<Rightarrow> (c # p) # ps))"

text \<open>\<open>s.replace(pat, rep)\<close> for a string pattern: the first occurrence only.\<close>

fun replace_first :: "string \<Rightarrow> string \<Rightarrow> string \<Rightarrow> string" where
  "replace_first pat rep [] = (if pat = [] then rep else [])"
| "replace_first pat rep (c # cs) =
     (if prefix pat (c # cs) then rep @ drop (length pat) (c # cs)
      else c # replace_first pat rep cs)"

text \<open>Array destructuring: a missing position is \<open>undefined\<close>.\<close>

definition nth_opt :: "'a list \<Rightarrow> nat \<Rightarrow> 'a option" where
  "nth_opt xs i = (if i < length xs then Some (xs ! i) else None)"

section \<open>CryptoValidation\<close>

text \<open>The test of \<open>/^[A-Za-z0-9+/]*={0,2}$/\<close>: the longest alphabet prefix, then at most two \<open>=\<close>.\<close>

definition base64Regex_test :: "string \<Rightarrow> bool" where
  "base64Regex_test s = (dropWhile is_base64_char s \<in> {[], ''='', ''==''})"

definition isValidBase64 :: "string \<Rightarrow> bool" where
  "isValidBase64 v =
     (if v = [] then False
      else if \<not> base64Regex_test v \<or> length v mod 4 \<noteq> 0 then False
      else (case Buffer_from_base64 v of Inr _ \<Rightarrow> True | Inl _ \<Rightarrow> False))"

definition isEncrypted :: "string \<Rightarrow> bool" where
  "isEncrypted v =
     (if v = [] then False
      else if \<not> prefix FORMAT_PREFIX v then False
      else (let parts = split_sep FORMAT_SEPARATOR (replace_first FORMAT_PREFIX [] v) in
        if length parts \<noteq> FORMAT_EXPECTED_PARTS + 1 then False
        else (case parts of
                [] \<Rightarrow> False
              | version # cryptoParts \<Rightarrow>
                  if version \<noteq> FORMAT_VERSION then False
                  else list_all isValidBase64 cryptoParts)))"

definition validateBase64String :: "string \<Rightarrow> string \<Rightarrow> error + unit" where
  "validateBase64String v fieldName =
     (if v = [] then Inl (Base64FieldEmpty fieldName)
      else if \<not> isValidBase64 v then Inl (Base64FieldInvalid fieldName)
      else Inr ())"

definition validateSecretKey :: "string \<Rightarrow> error + unit" where
  "validateSecretKey secretKey =
     (if secretKey = [] then Inl SecretKeyNotNonEmptyString
      else if length secretKey < 16 then Inl SecretKeyTooShort
      else Inr ())"

definition validateInputs :: "string \<Rightarrow> string \<Rightarrow> string \<Rightarrow> error + unit" where
  "validateInputs v secretKey operation =
     (if v = [] then Inl (ValueNotNonEmptyString operation)
      else if secretKey = [] then Inl (SecretKeyInputEmpty operation)
      else Inr ())"

section \<open>CryptoDecryption: parsing the envelope\<close>

record encrypted_components =
  version :: string
  salt :: string
  iv :: string
  cipherText :: string
  receivedHmac :: string

definition validateEncryptedComponents ::
  "string \<Rightarrow> string list \<Rightarrow> string \<Rightarrow> string \<Rightarrow> string \<Rightarrow> string \<Rightarrow> string \<Rightarrow> error + unit" where
  "validateEncryptedComponents encryptedData parts ver slt ivv ct mac =
     (let expectedParts = FORMAT_EXPECTED_PARTS + 1 in
      if \<not> prefix FORMAT_PREFIX encryptedData then Inl MissingPrefix
      else if length parts \<noteq> expectedParts then Inl (InvalidPartCount expectedParts (length parts))
      else if ver \<noteq> FORMAT_VERSION then Inl (UnsupportedVersion ver)
      else (let missingParts =
                  (if slt = [] then [''salt''] else []) @ (if ivv = [] then [''iv''] else []) @
                  (if ct = [] then [''cipherText''] else []) @ (if mac = [] then [''hmac''] else [])
            in if length missingParts > 0 then Inl (MissingComponents missingParts)
               else (let invalidComponents =
                           (if \<not> isValidBase64 slt then [''salt''] else []) @
                           (if \<not> isValidBase64 ivv then [''iv''] else []) @
                           (if \<not> isValidBase64 ct then [''cipherText''] else []) @
                           (if \<not> isValidBase64 mac then [''hmac''] else [])
                     in if length invalidComponents > 0 then Inl (InvalidComponents invalidComponents)
                        else Inr ())))"

definition parseEncryptedData :: "string \<Rightarrow> error + encrypted_components" where
  "parseEncryptedData encryptedData =
     (let encryptedPart = drop (length FORMAT_PREFIX) encryptedData;
          parts = split_sep FORMAT_SEPARATOR encryptedPart
      in case (nth_opt parts 0, nth_opt parts 1, nth_opt parts 2, nth_opt parts 3, nth_opt parts 4) of
           (Some ver, Some slt, Some ivv, Some ct, Some mac) \<Rightarrow>
             if ver = [] \<or> slt = [] \<or> ivv = [] \<or> ct = [] \<or> mac = []
             then Inl InvalidEncryptedDataFormat
             else (case validateEncryptedComponents encryptedData parts ver slt ivv ct mac of
                     Inl e \<Rightarrow> Inl e
                   | Inr _ \<Rightarrow> Inr \<lparr>version = ver, salt = slt, iv = ivv, cipherText = ct,
                                   receivedHmac = mac\<rparr>)
         | _ \<Rightarrow> Inl InvalidEncryptedDataFormat)"

section \<open>The platform and the world\<close>

text \<open>
  The library calls the subsystem makes are parameters: argon2's raw hash, the Web Crypto
  \<open>subtle\<close> operations (\<open>None\<close> when the call throws), the text encoder and decoder, and
  the tape the CSPRNG reads. \<open>secretFilePath\<close> is \<open>EnvPathResolver.getSecretFilePath()\<close> and
  \<open>currentEnvSecretKey\<close> the variable name \<open>EnvironmentConfigManager.getCurrentEnvSecretKey()\<close>
  resolves to. Imported \<open>CryptoKey\<close> handles are modelled by their raw bytes.
\<close>

record platform =
  argon2_hash :: "string \<Rightarrow> byte list \<Rightarrow> nat \<Rightarrow> nat \<Rightarrow> nat \<Rightarrow> nat \<Rightarrow> byte list option"
  subtle_encrypt :: "byte list \<Rightarrow> byte list \<Rightarrow> byte list \<Rightarrow> byte list option"
  subtle_decrypt :: "byte list \<Rightarrow> byte list \<Rightarrow> byte list \<Rightarrow> byte list option"
  subtle_sign :: "byte list \<Rightarrow> byte list \<Rightarrow> byte list option"
  textEncoder_encode :: "string \<Rightarrow> byte list"
  textDecoder_decode :: "byte list \<Rightarrow> string"
  randomBytes_source :: "nat \<Rightarrow> byte"
  secretFilePath :: string
  currentEnvSecretKey :: string

text \<open>
  The world a call runs in: the files (path to content), how much of the random tape has
  been drawn, and the log of the cryptographic calls made so far, oldest first.
\<close>

datatype call =
    DeriveKeysWithArgon2 | Argon2Hash | SubtleSign | SubtleEncrypt | PerformDecryption | SubtleDecrypt

record world =
  files :: "string \<rightharpoonup> string"
  drawn :: nat
  calls :: "call list"

definition log_call :: "call \<Rightarrow> world \<Rightarrow> world" where
  "log_call c w = w\<lparr>calls := calls w @ [c]\<rparr>"

section \<open>SecureKeyGenerator\<close>

definition validateLength :: "nat \<Rightarrow> error + unit" where
  "validateLength n =
     (if n < MIN_SECURE_LENGTH then Inl (LengthTooSmall n)
      else if n > MAX_REASONABLE_LENGTH then Inl (LengthTooLarge n)
      else Inr ())"

definition randomBytes :: "platform \<Rightarrow> nat \<Rightarrow> world \<Rightarrow> byte list \<times> world" where
  "randomBytes P n w =
     (map (randomBytes_source P) [drawn w ..< drawn w + n], w\<lparr>drawn := drawn w + n\<rparr>)"

definition generateSecureBytes :: "platform \<Rightarrow> nat \<Rightarrow> world \<Rightarrow> (error + byte list) \<times> world" where
  "generateSecureBytes P n w =
     (case validateLength n of
        Inl e \<Rightarrow> (Inl e, w)
      | Inr _ \<Rightarrow> (case randomBytes P n w of (bs, w') \<Rightarrow> (Inr bs, w')))"

definition generateBase64 :: "platform \<Rightarrow> nat \<Rightarrow> world \<Rightarrow> (error + string) \<times> world" where
  "generateBase64 P n w =
     (case generateSecureBytes P n w of
        (Inl e, w') \<Rightarrow> (Inl e, w')
      | (Inr bs, w') \<Rightarrow> (Inr (base64_encode bs), w'))"

definition generateBase64Salt :: "platform \<Rightarrow> world \<Rightarrow> (error + string) \<times> world" where
  "generateBase64Salt P w = generateBase64 P BYTE_LENGTHS_SALT w"

definition generateBase64SecretKey :: "platform \<Rightarrow> world \<Rightarrow> (error + string) \<times> world" where
  "generateBase64SecretKey P w = generateBase64 P BYTE_LENGTHS_SECRET_KEY w"

definition generateWebCryptoIV :: "platform \<Rightarrow> world \<Rightarrow> (error + byte list) \<times> world" where
  "generateWebCryptoIV P w =
     (case validateLength BYTE_LENGTHS_WEB_CRYPTO_IV of
        Inl e \<Rightarrow> (Inl e, w)
      | Inr _ \<Rightarrow> generateSecureBytes P BYTE_LENGTHS_WEB_CRYPTO_IV w)"

section \<open>SecretFileManager: the file content\<close>

text \<open>
  The key regex is \<open>new RegExp("^" + escaped(key) + "=(.*)$", "m")\<close>: a match starts at the
  beginning of the input or right after a line terminator, reads the escaped key literally,
  and its \<open>.*\<close> runs to the next line terminator. \<open>find_key_line\<close> returns the text before
  the first match, the captured value and the text after the match.
\<close>

definition is_line_terminator :: "char \<Rightarrow> bool" where
  "is_line_terminator c = (c = CHR 0x0A \<or> c = CHR 0x0D)"

fun find_key_line :: "string \<Rightarrow> string \<Rightarrow> bool \<Rightarrow> string \<Rightarrow> (string \<times> string \<times> string) option" where
  "find_key_line pat pre bol [] = (if bol \<and> pat = [] then Some (pre, [], []) else None)"
| "find_key_line pat pre bol (c # cs) =
     (if bol \<and> prefix pat (c # cs)
      then (let r = drop (length pat) (c # cs)
            in Some (pre, takeWhile (\<lambda>x. \<not> is_line_terminator x) r,
                     dropWhile (\<lambda>x. \<not> is_line_terminator x) r))
      else find_key_line pat (pre @ [c]) (is_line_terminator c) cs)"

definition formatEnvironmentKeyValue :: "string \<Rightarrow> string \<Rightarrow> string" where
  "formatEnvironmentKeyValue keyName v = keyName @ ''='' @ v"

definition extractKeyValue :: "string \<Rightarrow> string \<Rightarrow> string option" where
  "extractKeyValue fileContent keyName =
     (case find_key_line (keyName @ ''='') [] True fileContent of
        None \<Rightarrow> None
      | Some (_, v, _) \<Rightarrow> Some v)"

definition environmentKeyExists :: "string \<Rightarrow> string \<Rightarrow> bool" where
  "environmentKeyExists fileContent keyName =
     (find_key_line (keyName @ ''='') [] True fileContent \<noteq> None)"

text \<open>
  The replacement string of \<open>String.prototype.replace\<close>: \<open>$$\<close>, \<open>$&\<close>, \<open>$`\<close> and \<open>$'\<close> are
  substituted; the update regex has no capture group, so \<open>$1\<close> and the like stay as written.
\<close>

fun expand_replacement :: "string \<Rightarrow> string \<Rightarrow> string \<Rightarrow> string \<Rightarrow> string" where
  "expand_replacement [] b m a = []"
| "expand_replacement [c] b m a = [c]"
| "expand_replacement (c # d # rest) b m a =
     (if c = CHR ''$'' then
        (if d = CHR ''$'' then CHR ''$'' # expand_replacement rest b m a
         else if d = CHR ''&'' then m @ expand_replacement rest b m a
         else if d = CHR 0x60 then b @ expand_replacement rest b m a
         else if d = CHR 0x27 then a @ expand_replacement rest b m a
         else c # expand_replacement (d # rest) b m a)
      else c # expand_replacement (d # rest) b m a)"

definition updateExistingEnvironmentKey :: "string \<Rightarrow> string \<Rightarrow> string \<Rightarrow> string" where
  "updateExistingEnvironmentKey fileContent keyName v =
     (case find_key_line (keyName @ ''='') [] True fileContent of
        None \<Rightarrow> fileContent
      | Some (pre, old, post) \<Rightarrow>
          pre @
          expand_replacement (formatEnvironmentKeyValue keyName v) pre (keyName @ ''='' @ old) post @
          post)"

definition ensureFileEndsWithNewline :: "string \<Rightarrow> string" where
  "ensureFileEndsWithNewline content =
     (if content \<noteq> [] \<and> last content \<noteq> CHR 0x0A then content @ [CHR 0x0A] else content)"

definition addEnvironmentKey :: "string \<Rightarrow> string \<Rightarrow> string \<Rightarrow> string" where
  "addEnvironmentKey fileContent keyName v =
     ensureFileEndsWithNewline fileContent @ formatEnvironmentKeyValue keyName v"

definition updateEnvironmentKey :: "string \<Rightarrow> string \<Rightarrow> string \<Rightarrow> string" where
  "updateEnvironmentKey fileContent keyName v =
     (if environmentKeyExists fileContent keyName
      then updateExistingEnvironmentKey fileContent keyName v
      else addEnvironmentKey fileContent keyName v)"

definition shouldSkipExistingKey :: "string \<Rightarrow> string \<Rightarrow> bool \<Rightarrow> bool" where
  "shouldSkipExistingKey fileContent keyName skipIfExists =
     (if \<not> skipIfExists then False
      else (case extractKeyValue fileContent keyName of Some _ \<Rightarrow> True | None \<Rightarrow> False))"

text \<open>\<open>String.prototype.trim\<close> on the characters a \<open>char\<close> can hold.\<close>

definition is_js_whitespace :: "char \<Rightarrow> bool" where
  "is_js_whitespace c =
     (c \<in> {CHR 0x09, CHR 0x0A, CHR 0x0B, CHR 0x0C, CHR 0x0D, CHR 0x20, CHR 0xA0})"

definition js_trim :: "string \<Rightarrow> string" where
  "js_trim s = rev (dropWhile is_js_whitespace (rev (dropWhile is_js_whitespace s)))"

section \<open>SecretFileManager: one call running alone\<close>

text \<open>
  With no other operation pending on the path, \<open>waitForFileLock\<close> finds no lock and
  \<open>executeWithFileLock\<close> runs the operation at once. File access itself does not fail in
  this model.
\<close>

definition ensureEnvFileExists :: "string \<Rightarrow> world \<Rightarrow> world" where
  "ensureEnvFileExists filePath w =
     (case files w filePath of
        None \<Rightarrow> w\<lparr>files := (files w)(filePath \<mapsto> [])\<rparr>
      | Some _ \<Rightarrow> w)"

definition readEnvFileContent :: "string \<Rightarrow> world \<Rightarrow> string \<times> world" where
  "readEnvFileContent filePath w =
     (let w' = ensureEnvFileExists filePath w
      in (case files w' filePath of Some c \<Rightarrow> c | None \<Rightarrow> [], w'))"

definition storeKeyInFile :: "string \<Rightarrow> string \<Rightarrow> string \<Rightarrow> bool \<Rightarrow> world \<Rightarrow> bool \<times> world" where
  "storeKeyInFile filePath keyName v skipIfExists w =
     (case readEnvFileContent filePath w of (fileContent, w1) \<Rightarrow>
        if shouldSkipExistingKey fileContent keyName skipIfExists then (False, w1)
        else (True, w1\<lparr>files := (files w1)(filePath \<mapsto> updateEnvironmentKey fileContent keyName v)\<rparr>))"

definition storeEnvironmentKey :: "platform \<Rightarrow> string \<Rightarrow> string \<Rightarrow> bool \<Rightarrow> world \<Rightarrow> bool \<times> world" where
  "storeEnvironmentKey P keyName v skipIfExists w =
     storeKeyInFile (secretFilePath P) keyName v skipIfExists w"

definition getKeyValue :: "string \<Rightarrow> string \<Rightarrow> world \<Rightarrow> string option \<times> world" where
  "getKeyValue filePath keyName w =
     (case readEnvFileContent filePath w of (fileContent, w1) \<Rightarrow>
        (extractKeyValue fileContent keyName, w1))"

definition verifySecretKeyExists :: "platform \<Rightarrow> string \<Rightarrow> world \<Rightarrow> bool \<times> world" where
  "verifySecretKeyExists P secretKeyName w =
     (case getKeyValue (secretFilePath P) secretKeyName w of (secretKeyValue, w1) \<Rightarrow>
        ((case secretKeyValue of None \<Rightarrow> False | Some v \<Rightarrow> js_trim v \<noteq> []), w1))"

definition ensureSecretKeyExists :: "platform \<Rightarrow> string \<Rightarrow> world \<Rightarrow> (error + unit) \<times> world" where
  "ensureSecretKeyExists P secretKeyName w =
     (case verifySecretKeyExists P secretKeyName w of (keyExists, w1) \<Rightarrow>
        if \<not> keyExists then (Inl (SecretKeyMissingInFile secretKeyName), w1) else (Inr (), w1))"

section \<open>CryptoEnvironment\<close>

definition getSecretKeyFromEnvironment :: "platform \<Rightarrow> string \<Rightarrow> world \<Rightarrow> (error + string) \<times> world" where
  "getSecretKeyFromEnvironment P secretKeyVariable w =
     (case getKeyValue (secretFilePath P) secretKeyVariable w of (secretKeyValue, w1) \<Rightarrow>
        (case secretKeyValue of
           None \<Rightarrow> (Inl (SecretKeyVariableNotFound secretKeyVariable), w1)
         | Some k \<Rightarrow>
             if k = [] then (Inl (SecretKeyVariableNotFound secretKeyVariable), w1)
             else (Inr k, w1)))"

section \<open>CryptoArgon2\<close>

record derived_keys =
  encryptionKey :: "byte list"
  hmacKey :: "byte list"

definition deriveKeysWithArgon2 ::
  "platform \<Rightarrow> string \<Rightarrow> string \<Rightarrow> world \<Rightarrow> (error + derived_keys) \<times> world" where
  "deriveKeysWithArgon2 P secretKey slt w0 =
     (let w = log_call DeriveKeysWithArgon2 w0 in
      case validateBase64String slt ''salt'' of
        Inl e \<Rightarrow> (Inl e, w)
      | Inr _ \<Rightarrow>
          (let saltBuffer = base64_decode slt;
               w1 = log_call Argon2Hash w
           in case argon2_hash P secretKey saltBuffer
                     (BYTE_LENGTHS_SECRET_KEY + BYTE_LENGTHS_HMAC_KEY_LENGTH)
                     ARGON2_MEMORY_COST ARGON2_TIME_COST ARGON2_PARALLELISM of
                None \<Rightarrow> (Inl (PlatformFailure ''argon2.hash''), w1)
              | Some derivedKeyBuffer \<Rightarrow>
                  (Inr \<lparr>encryptionKey = take BYTE_LENGTHS_SECRET_KEY derivedKeyBuffer,
                        hmacKey = drop BYTE_LENGTHS_SECRET_KEY derivedKeyBuffer\<rparr>, w1)))"

section \<open>CryptoHmac and CryptoWebOperations\<close>

definition prepareHMACData :: "string \<Rightarrow> string \<Rightarrow> string \<Rightarrow> byte list" where
  "prepareHMACData slt ivv ct = base64_decode slt @ base64_decode ivv @ base64_decode ct"

definition computeHMAC :: "platform \<Rightarrow> byte list \<Rightarrow> byte list \<Rightarrow> world \<Rightarrow> (error + string) \<times> world" where
  "computeHMAC P key dat w0 =
     (let w = log_call SubtleSign w0 in
      case subtle_sign P key dat of
        None \<Rightarrow> (Inl (PlatformFailure ''subtle.sign''), w)
      | Some signature \<Rightarrow> (Inr (base64_encode signature), w))"

text \<open>\<open>crypto.timingSafeEqual\<close> on two buffers of one length is equality of their bytes.\<close>

definition verifyHMAC :: "string \<Rightarrow> string \<Rightarrow> bool" where
  "verifyHMAC computedHmac received =
     (let computed = base64_decode computedHmac;
          receivedBuf = base64_decode received
      in if length computed \<noteq> length receivedBuf then False else computed = receivedBuf)"

definition verifyHMACIntegrity ::
  "platform \<Rightarrow> string \<Rightarrow> string \<Rightarrow> string \<Rightarrow> string \<Rightarrow> byte list \<Rightarrow> world \<Rightarrow> (error + unit) \<times> world" where
  "verifyHMACIntegrity P slt ivv ct received key w =
     (let dataToHmac = prepareHMACData slt ivv ct in
      case computeHMAC P key dataToHmac w of
        (Inl e, w1) \<Rightarrow> (Inl e, w1)
      | (Inr computedHmac, w1) \<Rightarrow>
          if \<not> verifyHMAC computedHmac received then (Inl HmacMismatch, w1) else (Inr (), w1))"

definition encryptBuffer ::
  "platform \<Rightarrow> byte list \<Rightarrow> byte list \<Rightarrow> string \<Rightarrow> world \<Rightarrow> (error + byte list) \<times> world" where
  "encryptBuffer P ivBytes key v w0 =
     (let w = log_call SubtleEncrypt w0 in
      case subtle_encrypt P key ivBytes (textEncoder_encode P v) of
        None \<Rightarrow> (Inl (PlatformFailure ''subtle.encrypt''), w)
      | Some buf \<Rightarrow> (Inr buf, w))"

definition decryptBuffer ::
  "platform \<Rightarrow> byte list \<Rightarrow> byte list \<Rightarrow> byte list \<Rightarrow> world \<Rightarrow> (error + byte list) \<times> world" where
  "decryptBuffer P ivBytes key cipherBuffer w0 =
     (let w = log_call SubtleDecrypt w0 in
      case subtle_decrypt P key ivBytes cipherBuffer of
        None \<Rightarrow> (Inl (PlatformFailure ''subtle.decrypt''), w)
      | Some buf \<Rightarrow> (Inr buf, w))"

section \<open>CryptoEncryption\<close>

definition validateEncryptionPrerequisites ::
  "platform \<Rightarrow> string \<Rightarrow> string \<Rightarrow> world \<Rightarrow> (error + string) \<times> world" where
  "validateEncryptionPrerequisites P v secretKeyVariable w =
     (case getSecretKeyFromEnvironment P secretKeyVariable w of
        (Inl e, w1) \<Rightarrow> (Inl e, w1)
      | (Inr actualSecretKey, w1) \<Rightarrow>
          (case validateSecretKey actualSecretKey of
             Inl e \<Rightarrow> (Inl e, w1)
           | Inr _ \<Rightarrow>
               (case validateInputs v actualSecretKey ''encrypt'' of
                  Inl e \<Rightarrow> (Inl e, w1)
                | Inr _ \<Rightarrow> (Inr actualSecretKey, w1))))"

definition generateEncryptionComponents ::
  "platform \<Rightarrow> string \<Rightarrow> world \<Rightarrow> (error + string \<times> byte list \<times> derived_keys) \<times> world" where
  "generateEncryptionComponents P secretKey w =
     (case generateBase64Salt P w of
        (Inl e, w1) \<Rightarrow> (Inl e, w1)
      | (Inr slt, w1) \<Rightarrow>
          (case generateWebCryptoIV P w1 of
             (Inl e, w2) \<Rightarrow> (Inl e, w2)
           | (Inr ivBytes, w2) \<Rightarrow>
               (case deriveKeysWithArgon2 P secretKey slt w2 of
                  (Inl e, w3) \<Rightarrow> (Inl e, w3)
                | (Inr keys, w3) \<Rightarrow> (Inr (slt, ivBytes, keys), w3))))"

definition formatEncryptedPayload :: "string \<Rightarrow> string \<Rightarrow> string \<Rightarrow> string \<Rightarrow> string" where
  "formatEncryptedPayload slt ivv ct mac =
     FORMAT_PREFIX @ FORMAT_VERSION @ [FORMAT_SEPARATOR] @ slt @ [FORMAT_SEPARATOR] @ ivv @
     [FORMAT_SEPARATOR] @ ct @ [FORMAT_SEPARATOR] @ mac"

text \<open>\<open>createEncryptedPayload\<close> returns \<open>{raw, components}\<close>; the pair below is \<open>raw\<close> and the
  components \<open>(salt, iv, cipherText, hmac)\<close>.\<close>

definition createEncryptedPayload ::
  "platform \<Rightarrow> string \<Rightarrow> string \<Rightarrow> byte list \<Rightarrow> byte list \<Rightarrow> byte list \<Rightarrow> world \<Rightarrow>
   (error + string \<times> (string \<times> string \<times> string \<times> string)) \<times> world" where
  "createEncryptedPayload P v slt ivBytes encKey macKey w =
     (case encryptBuffer P ivBytes encKey v w of
        (Inl e, w1) \<Rightarrow> (Inl e, w1)
      | (Inr encryptedBuffer, w1) \<Rightarrow>
          (let ct = base64_encode encryptedBuffer;
               ivBase64 = base64_encode ivBytes;
               dataToHmac = prepareHMACData slt ivBase64 ct
           in case computeHMAC P macKey dataToHmac w1 of
                (Inl e, w2) \<Rightarrow> (Inl e, w2)
              | (Inr hmacBase64, w2) \<Rightarrow>
                  (Inr (formatEncryptedPayload slt ivBase64 ct hmacBase64,
                        (slt, ivBase64, ct, hmacBase64)), w2)))"

section \<open>CryptoDecryption: the AEAD step\<close>

definition performDecryption ::
  "platform \<Rightarrow> string \<Rightarrow> byte list \<Rightarrow> string \<Rightarrow> world \<Rightarrow> (error + byte list) \<times> world" where
  "performDecryption P ivv encKey ct w0 =
     (let w = log_call PerformDecryption w0;
          ivBuffer = base64_decode ivv;
          cipherBuffer = base64_decode ct
      in decryptBuffer P ivBuffer encKey cipherBuffer w)"

section \<open>CryptoService\<close>

definition encrypt :: "platform \<Rightarrow> string \<Rightarrow> string \<Rightarrow> world \<Rightarrow> (error + string) \<times> world" where
  "encrypt P v secretKeyVariable w =
     (case validateEncryptionPrerequisites P v secretKeyVariable w of
        (Inl e, w1) \<Rightarrow> (Inl e, w1)
      | (Inr secretKey, w1) \<Rightarrow>
          (case generateEncryptionComponents P secretKey w1 of
             (Inl e, w2) \<Rightarrow> (Inl e, w2)
           | (Inr (slt, ivBytes, keys), w2) \<Rightarrow>
               (case createEncryptedPayload P v slt ivBytes (encryptionKey keys) (hmacKey keys) w2 of
                  (Inl e, w3) \<Rightarrow> (Inl e, w3)
                | (Inr (raw, _), w3) \<Rightarrow> (Inr raw, w3))))"

definition decrypt :: "platform \<Rightarrow> string \<Rightarrow> string \<Rightarrow> world \<Rightarrow> (error + string) \<times> world" where
  "decrypt P encryptedData secretKeyVariable w =
     (case getSecretKeyFromEnvironment P secretKeyVariable w of
        (Inl e, w1) \<Rightarrow> (Inl e, w1)
      | (Inr resolvedSecretKey, w1) \<Rightarrow>
     (case validateSecretKey resolvedSecretKey of
        Inl e \<Rightarrow> (Inl e, w1)
      | Inr _ \<Rightarrow>
     (case validateInputs encryptedData resolvedSecretKey ''decrypt'' of
        Inl e \<Rightarrow> (Inl e, w1)
      | Inr _ \<Rightarrow>
     (case parseEncryptedData encryptedData of
        Inl e \<Rightarrow> (Inl e, w1)
      | Inr comps \<Rightarrow>
     (case deriveKeysWithArgon2 P resolvedSecretKey (salt comps) w1 of
        (Inl e, w2) \<Rightarrow> (Inl e, w2)
      | (Inr keys, w2) \<Rightarrow>
     (case verifyHMACIntegrity P (salt comps) (iv comps) (cipherText comps) (receivedHmac comps)
             (hmacKey keys) w2 of
        (Inl e, w3) \<Rightarrow> (Inl e, w3)
      | (Inr _, w3) \<Rightarrow>
     (case performDecryption P (iv comps) (encryptionKey keys) (cipherText comps) w3 of
        (Inl e, w4) \<Rightarrow> (Inl e, w4)
      | (Inr decryptedBuffer, w4) \<Rightarrow> (Inr (textDecoder_decode P decryptedBuffer), w4))))))))"

section \<open>CryptoCoordinator\<close>

definition generateAndStoreSecretKey :: "platform \<Rightarrow> world \<Rightarrow> (error + string) \<times> world" where
  "generateAndStoreSecretKey P w =
     (let currentEnvKey = currentEnvSecretKey P in
      case generateBase64SecretKey P w of
        (Inl e, w1) \<Rightarrow> (Inl e, w1)
      | (Inr generatedSecretKey, w1) \<Rightarrow>
          (case storeEnvironmentKey P currentEnvKey generatedSecretKey True w1 of (_, w2) \<Rightarrow>
             (case ensureSecretKeyExists P currentEnvKey w2 of
                (Inl e, w3) \<Rightarrow> (Inl e, w3)
              | (Inr _, w3) \<Rightarrow> (Inr generatedSecretKey, w3))))"

section \<open>SecretFileManager: concurrent calls\<close>

text \<open>
  Several \<open>storeKeyInFile\<close> calls in one process. A call is suspended at each \<open>await\<close>; a
  step of the scheduler resumes one call and runs it to its next \<open>await\<close>. The phases of a
  call follow \<open>executeWithFileLock\<close>:
  \<^item> \<open>NotCalled\<close>: not invoked yet. Invoking it runs \<open>waitForFileLock\<close> synchronously, which
    reads \<open>fileLocks.get(filePath)\<close>.
  \<^item> \<open>AwaitingLock j\<close>: suspended in \<open>await existingLock\<close>, the lock call \<open>j\<close> installed.
  \<^item> \<open>PassedWait\<close>: \<open>waitForFileLock\<close> has returned; suspended at
    \<open>await this.waitForFileLock(filePath)\<close>.
  \<^item> \<open>OpStat\<close>: \<open>createFileLock\<close> has started the operation and stored its promise in
    \<open>fileLocks\<close>; the operation waits for \<open>doesFileExist\<close>.
  \<^item> \<open>OpCreate\<close>: the file was missing; the write of the empty file is pending.
  \<^item> \<open>OpRead\<close>: \<open>readFile\<close> is pending.
  \<^item> \<open>OpWrite c\<close>: the content was read and updated to \<open>c\<close>; \<open>writeFile\<close> is pending.
  \<^item> \<open>OpSettled r\<close>: the operation's promise is settled with \<open>r\<close>; the \<open>finally\<close> block
    has not run.
  \<^item> \<open>Returned r\<close>: \<open>fileLocks.delete(filePath)\<close> has run and the call has resolved.
\<close>

datatype phase =
    NotCalled | AwaitingLock nat | PassedWait | OpStat | OpCreate | OpRead | OpWrite string
  | OpSettled bool | Returned bool

record store_call =
  call_path :: string
  call_key :: string
  call_value :: string
  call_skipIfExists :: bool

record process =
  tasks :: "(store_call \<times> phase) list"
  fileLocks :: "string \<rightharpoonup> nat"
  disk :: "string \<rightharpoonup> string"

fun settled :: "phase \<Rightarrow> bool" where
  "settled (OpSettled _) = True"
| "settled (Returned _) = True"
| "settled _ = False"

text \<open>The operation of a call is in flight from its start until its promise settles.\<close>

fun in_flight :: "phase \<Rightarrow> bool" where
  "in_flight OpStat = True"
| "in_flight OpCreate = True"
| "in_flight OpRead = True"
| "in_flight (OpWrite _) = True"
| "in_flight _ = False"

definition set_phase :: "nat \<Rightarrow> phase \<Rightarrow> process \<Rightarrow> process" where
  "set_phase i ph s = s\<lparr>tasks := (tasks s)[i := (fst (tasks s ! i), ph)]\<rparr>"

definition resume :: "nat \<Rightarrow> process \<Rightarrow> process" where
  "resume i s =
     (if i \<ge> length (tasks s) then s
      else (case tasks s ! i of (c, ph) \<Rightarrow>
        (case ph of
           NotCalled \<Rightarrow>
             (case fileLocks s (call_path c) of
                None \<Rightarrow> set_phase i PassedWait s
              | Some j \<Rightarrow> set_phase i (AwaitingLock j) s)
         | AwaitingLock j \<Rightarrow>
             (if j < length (tasks s) \<and> settled (snd (tasks s ! j)) then set_phase i PassedWait s
              else s)
         | PassedWait \<Rightarrow>
             set_phase i OpStat (s\<lparr>fileLocks := (fileLocks s)(call_path c \<mapsto> i)\<rparr>)
         | OpStat \<Rightarrow>
             (case disk s (call_path c) of
                None \<Rightarrow> set_phase i OpCreate s
              | Some _ \<Rightarrow> set_phase i OpRead s)
         | OpCreate \<Rightarrow> set_phase i OpRead (s\<lparr>disk := (disk s)(call_path c \<mapsto> [])\<rparr>)
         | OpRead \<Rightarrow>
             (let fileContent = (case disk s (call_path c) of Some t \<Rightarrow> t | None \<Rightarrow> [])
              in if shouldSkipExistingKey fileContent (call_key c) (call_skipIfExists c)
                 then set_phase i (OpSettled False) s
                 else set_phase i (OpWrite (updateEnvironmentKey fileContent (call_key c) (call_value c))) s)
         | OpWrite updatedContent \<Rightarrow>
             set_phase i (OpSettled True) (s\<lparr>disk := (disk s)(call_path c \<mapsto> updatedContent)\<rparr>)
         | OpSettled r \<Rightarrow>
             set_phase i (Returned r) (s\<lparr>fileLocks := (fileLocks s)(call_path c := None)\<rparr>)
         | Returned r \<Rightarrow> s)))"

fun run :: "nat list \<Rightarrow> process \<Rightarrow> process" where
  "run [] s = s"
| "run (i # sched) s = run sched (resume i s)"

definition in_flight_on :: "string \<Rightarrow> process \<Rightarrow> nat" where
  "in_flight_on p s = length (filter (\<lambda>(c, ph). call_path c = p \<and> in_flight ph) (tasks s))"

definition all_returned :: "process \<Rightarrow> bool" where
  "all_returned s = list_all (\<lambda>(c, ph). case ph of Returned _ \<Rightarrow> True | _ \<Rightarrow> False) (tasks s)"

definition start_process :: "store_call list \<Rightarrow> (string \<rightharpoonup> string) \<Rightarrow> process" where
  "start_process cs d = \<lparr>tasks = map (\<lambda>c. (c, NotCalled)) cs, fileLocks = Map.empty, disk = d\<rparr>"

text \<open>Two calls on the secret file, with the keys \<open>A\<close> and \<open>B\<close>, on an empty file.\<close>

definition store_A :: store_call where
  "store_A = \<lparr>call_path = ''.env.secret'', call_key = ''A'', call_value = ''1'', call_skipIfExists = False\<rparr>"

definition store_B :: store_call where
  "store_B = \<lparr>call_path = ''.env.secret'', call_key = ''B'', call_value = ''2'', call_skipIfExists = False\<rparr>"

definition two_stores :: process where
  "two_stores = start_process [store_A, store_B] [''.env.secret'' \<mapsto> []]"

section \<open>The properties of the design document, as stated there\<close>

definition decodes :: "string \<Rightarrow> bool" where
  "decodes s = (case Buffer_from_base64 s of Inr _ \<Rightarrow> True | Inl _ \<Rightarrow> False)"

text \<open>The design's \<open>isValidBase64\<close>: matches the regex, length a multiple of 4, decodes.\<close>

definition spec_isValidBase64 :: "string \<Rightarrow> bool" where
  "spec_isValidBase64 s = (base64Regex_test s \<and> length s mod 4 = 0 \<and> decodes s)"

text \<open>The design's \<open>isWellFormedEnvelope\<close>: the prefix, then version + 4 tokens, the supported
  version, and four trailing tokens that are valid base64 and non-empty.\<close>

definition isWellFormedEnvelope :: "string \<Rightarrow> bool" where
  "isWellFormedEnvelope s =
     (prefix FORMAT_PREFIX s \<and>
      (let tokens = split_sep FORMAT_SEPARATOR (drop (length FORMAT_PREFIX) s) in
         length tokens = 1 + 4 \<and> hd tokens = FORMAT_VERSION \<and>
         list_all (\<lambda>t. spec_isValidBase64 t \<and> t \<noteq> []) (tl tokens)))"

text \<open>
  The format regex \<open>^ENC2:v1:[A-Za-z0-9+/=]+:[A-Za-z0-9+/=]+:[A-Za-z0-9+/=]+:[A-Za-z0-9+/=]+$\<close>.
  The character class has no colon, so a string matches exactly when what follows the
  literal head splits at the colons into four non-empty fields of the class.
\<close>

definition is_envelope_class_char :: "char \<Rightarrow> bool" where
  "is_envelope_class_char c = (is_base64_char c \<or> c = CHR ''='')"

definition matches_envelope_regex :: "string \<Rightarrow> bool" where
  "matches_envelope_regex s =
     (prefix ''ENC2:v1:'' s \<and>
      (let fields = split_sep (CHR '':'') (drop 8 s) in
         length fields = 4 \<and>
         list_all (\<lambda>f. f \<noteq> [] \<and> list_all is_envelope_class_char f) fields))"

text \<open>
  Two facts of the Web Crypto library the format relies on: AES-GCM returns the ciphertext
  with its 16-byte tag, and an HMAC-SHA-256 signature has 32 bytes; neither is empty.
\<close>

definition aead_output_nonempty :: "platform \<Rightarrow> bool" where
  "aead_output_nonempty P = (\<forall>key ivBytes dat out. subtle_encrypt P key ivBytes dat = Some out \<longrightarrow> out \<noteq> [])"

definition sign_output_nonempty :: "platform \<Rightarrow> bool" where
  "sign_output_nonempty P = (\<forall>key dat out. subtle_sign P key dat = Some out \<longrightarrow> out \<noteq> [])"

text \<open>What \<open>getSecretKeyFromEnvironment\<close> returns, as a function of the secret file.\<close>

definition resolve_secret :: "string \<Rightarrow> string option \<Rightarrow> error + string" where
  "resolve_secret var content =
     (case extractKeyValue (case content of None \<Rightarrow> [] | Some c \<Rightarrow> c) var of
        None \<Rightarrow> Inl (SecretKeyVariableNotFound var)
      | Some k \<Rightarrow> if k = [] then Inl (SecretKeyVariableNotFound var) else Inr k)"

text \<open>The key \<open>generateBase64SecretKey\<close> draws in a world, and the content of the secret
  file as \<open>readEnvFileContent\<close> returns it (a missing file is created empty).\<close>

definition fresh_secret_key :: "platform \<Rightarrow> world \<Rightarrow> string" where
  "fresh_secret_key P w =
     base64_encode (map (randomBytes_source P) [drawn w ..< drawn w + BYTE_LENGTHS_SECRET_KEY])"

definition secret_file_content :: "platform \<Rightarrow> world \<Rightarrow> string" where
  "secret_file_content P w = (case files w (secretFilePath P) of None \<Rightarrow> [] | Some c \<Rightarrow> c)"

section \<open>An auxiliary notion for the proofs about base64\<close>


section \<open>A small platform to run the definitions on\<close>

text \<open>
  Stand-ins with the shapes of the library calls: a 16-byte tag after the data, a 32-byte
  signature that depends on key and data, a hash of the requested length.
\<close>

definition demo_platform :: platform where
  "demo_platform =
     \<lparr>argon2_hash = (\<lambda>secret slt hashLength m t p. Some (replicate hashLength (of_nat (length secret + length slt)))),
      subtle_encrypt = (\<lambda>key ivBytes dat. Some (dat @ replicate 16 (0::byte))),
      subtle_decrypt = (\<lambda>key ivBytes c. if length c < 16 then None else Some (take (length c - 16) c)),
      subtle_sign = (\<lambda>key dat. Some (take 32 (dat @ replicate 32 (0::byte)))),
      textEncoder_encode = map (\<lambda>c. of_nat (of_char c)),
      textDecoder_decode = map (\<lambda>b. char_of (unat b)),
      randomBytes_source = (\<lambda>i. of_nat i),
      secretFilePath = ''.env.secret'',
      currentEnvSecretKey = ''DEV_SECRET_KEY''\<rparr>"

text \<open>A world with one secret file, \<open>n\<close> random bytes drawn and the calls \<open>cs\<close> logged.\<close>

definition demo_world :: "string \<Rightarrow> nat \<Rightarrow> call list \<Rightarrow> world" where
  "demo_world secretFile n cs = \<lparr>files = [''.env.secret'' \<mapsto> secretFile], drawn = n, calls = cs\<rparr>"

definition demo_secret_file :: string where
  "demo_secret_file = ''DEV_SECRET_KEY=0123456789abcdef0123456789abcdef''"

text \<open>What \<open>encrypt\<close> returns for \<open>hunter2\<close> on this platform.\<close>

definition demo_envelope :: string where
  "demo_envelope = ''ENC2:v1:AAECAwQFBgcICQoLDA0ODxAREhMUFRYXGBkaGxwdHh8=:ICEiIyQlJicoKSor:aHVudGVyMgAAAAAAAAAAAAAAAAAAAAA=:AAECAwQFBgcICQoLDA0ODxAREhMUFRYXGBkaGxwdHh8=''"

text \<open>The secret of the demo file, and components with a short salt.\<close>

definition demo_key :: string where "demo_key = ''0123456789abcdef0123456789abcdef''"

definition demo_forged_components :: encrypted_components where
  "demo_forged_components =
     \<lparr>version = ''v1'', salt = ''AAAA'', iv = ''AAAA'', cipherText = ''AAAA'', receivedHmac = ''AAAB''\<rparr>"

text \<open>The MAC field of that envelope, and the envelope with the last character before the
  padding of its MAC field replaced.\<close>

definition demo_mac :: string where
  "demo_mac = ''AAECAwQFBgcICQoLDA0ODxAREhMUFRYXGBkaGxwdHh8=''"


text \<open>
  The envelope of \<open>hunter2\<close> with one more part appended; the same envelope with a MAC field
  that is not the MAC of its fields; and a six-part string whose ciphertext field has a
  character outside the alphabet.
\<close>

definition demo_extended :: string where
  "demo_extended = demo_envelope @ '':x''"

definition demo_wrong_mac :: string where
  "demo_wrong_mac = ''ENC2:v1:AAECAwQFBgcICQoLDA0ODxAREhMUFRYXGBkaGxwdHh8=:ICEiIyQlJicoKSor:aHVudGVyMgAAAAAAAAAAAAAAAAAAAAA=:AAAAAAAAAAAAAAAAAAAAAAAAAAAAAAAAAAAAAAAAAAA=:x''"

definition demo_wrong_mac_components :: encrypted_components where
  "demo_wrong_mac_components =
     \<lparr>version = ''v1'', salt = ''AAECAwQFBgcICQoLDA0ODxAREhMUFRYXGBkaGxwdHh8='',
      iv = ''ICEiIyQlJicoKSor'', cipherText = ''aHVudGVyMgAAAAAAAAAAAAAAAAAAAAA='',
      receivedHmac = ''AAAAAAAAAAAAAAAAAAAAAAAAAAAAAAAAAAAAAAAAAAA=''\<rparr>"



section \<open>Helper lemmas: strings and lists\<close>

lemma replace_first_prefix: "prefix pat s \<Longrightarrow> replace_first pat [] s = drop (length pat) s"
  by (cases s) auto

lemma length5E:
  assumes "length xs = 5"
  obtains a b c d e where "xs = [a, b, c, d, e]"
proof -
  from assms have "xs = [xs ! 0, xs ! 1, xs ! 2, xs ! 3, xs ! 4]"
    by (auto simp: list_eq_iff_nth_eq less_Suc_eq numeral_eq_Suc nth_Cons')
  then show ?thesis using that by blast
qed

section \<open>Helper lemmas: base64\<close>


lemma length_base64_alphabet: "length base64_alphabet = 64"
  by (simp add: base64_alphabet_def)

lemma distinct_base64_alphabet: "distinct base64_alphabet"
  by (simp add: base64_alphabet_def)

lemma index_of_nth: "distinct xs \<Longrightarrow> n < length xs \<Longrightarrow> index_of (xs ! n) xs = n"
proof (induction xs arbitrary: n)
  case Nil
  then show ?case by simp
next
  case (Cons a xs)
  then show ?case by (cases n) auto
qed

lemma is_base64_char_sextet: "n < 64 \<Longrightarrow> is_base64_char (sextet_char n)"
  by (simp add: is_base64_char_def sextet_char_def length_base64_alphabet)

lemma base64_char_not_url: "is_base64_char c \<Longrightarrow> c \<noteq> CHR ''-'' \<and> c \<noteq> CHR ''_''"
  by (auto simp: is_base64_char_def base64_alphabet_def)

lemma char_sextet_sextet_char: "n < 64 \<Longrightarrow> char_sextet (sextet_char n) = n"
  using base64_char_not_url [OF is_base64_char_sextet [of n]]
  by (simp add: char_sextet_def) (simp add: sextet_char_def index_of_nth distinct_base64_alphabet
      length_base64_alphabet)

lemma sextet_char_not_pad: "n < 64 \<Longrightarrow> sextet_char n \<noteq> CHR ''=''"
  using is_base64_char_sextet [of n] by (auto simp: is_base64_char_def base64_alphabet_def)

lemma is_sextet_char_sextet: "n < 64 \<Longrightarrow> is_sextet_char (sextet_char n)"
  by (simp add: is_sextet_char_def is_base64_char_sextet)

lemma base64_char_not_colon: "is_base64_char c \<Longrightarrow> c \<noteq> CHR '':''"
  by (auto simp: is_base64_char_def base64_alphabet_def)

lemma base64_char_not_pad: "\<not> is_base64_char (CHR ''='')"
  by (simp add: is_base64_char_def base64_alphabet_def)

lemma unat_byte_less: "unat (x :: byte) < 256"
  using unsigned_less [of x] by simp

lemma sextet_hi: "unat (x :: byte) div 4 < 64"
  using unat_byte_less [of x] by simp

lemma sextet_mid1: "(unat (x :: byte) mod 4) * 16 + unat (y :: byte) div 16 < 64"
proof -
  have "unat x mod 4 < 4" by simp
  moreover have "unat y div 16 < 16" using unat_byte_less [of y] by simp
  ultimately show ?thesis by linarith
qed

lemma sextet_mid2: "(unat (y :: byte) mod 16) * 4 + unat (z :: byte) div 64 < 64"
proof -
  have "unat y mod 16 < 16" by simp
  moreover have "unat z div 64 < 4" using unat_byte_less [of z] by simp
  ultimately show ?thesis by linarith
qed

lemma sextet_lo: "unat (z :: byte) mod 64 < 64"
  by simp

lemma sextet_pad1: "(unat (x :: byte) mod 4) * 16 < 64"
proof -
  have "unat x mod 4 < 4" by simp
  then show ?thesis by linarith
qed

lemma sextet_pad2: "(unat (y :: byte) mod 16) * 4 < 64"
proof -
  have "unat y mod 16 < 16" by simp
  then show ?thesis by linarith
qed

lemmas sextet_bounds = sextet_hi sextet_mid1 sextet_mid2 sextet_lo sextet_pad1 sextet_pad2

lemma regroup1: "Y < 256 \<Longrightarrow> (X div 4) * 4 + ((X mod 4) * 16 + Y div 16) div 16 = (X::nat)"
proof -
  assume "Y < 256"
  then have "Y div 16 < 16" by simp
  then have "((X mod 4) * 16 + Y div 16) div 16 = X mod 4" by simp
  then show ?thesis by simp
qed

lemma regroup2:
  "Y < 256 \<Longrightarrow> Z < 256 \<Longrightarrow>
   (((X mod 4) * 16 + Y div 16) mod 16) * 16 + ((Y mod 16) * 4 + Z div 64) div 4 = (Y::nat)"
proof -
  assume "Y < 256" "Z < 256"
  then have a: "Y div 16 < 16" and b: "Z div 64 < 4" by simp_all
  from a have "((X mod 4) * 16 + Y div 16) mod 16 = Y div 16" by simp
  moreover from b have "((Y mod 16) * 4 + Z div 64) div 4 = Y mod 16" by simp
  ultimately show ?thesis by simp
qed

lemma regroup3: "Z < 256 \<Longrightarrow> (((Y mod 16) * 4 + Z div 64) mod 4) * 64 + Z mod 64 = (Z::nat)"
proof -
  assume "Z < 256"
  then have b: "Z div 64 < 4" by simp
  then have "((Y mod 16) * 4 + Z div 64) mod 4 = Z div 64" by simp
  then show ?thesis by simp
qed

lemma regroup2_pad:
  "Y < 256 \<Longrightarrow> (((X mod 4) * 16 + Y div 16) mod 16) * 16 + ((Y mod 16) * 4) div 4 = (Y::nat)"
  using regroup2 [of Y 0 X] by simp

lemma regroup1_pad: "(X div 4) * 4 + ((X mod 4) * 16) div 16 = (X::nat)"
  by simp

lemma base64_encode_chars: "list_all is_envelope_class_char (base64_encode bs)"
  by (induction bs rule: base64_encode.induct)
    (simp_all add: is_envelope_class_char_def is_base64_char_sextet sextet_bounds)

lemma class_char_not_colon: "is_envelope_class_char c \<Longrightarrow> c \<noteq> CHR '':''"
  by (auto simp: is_envelope_class_char_def dest: base64_char_not_colon)

lemma base64_encode_no_colon: "CHR '':'' \<notin> set (base64_encode bs)"
  using base64_encode_chars [of bs] class_char_not_colon
  by (auto simp: list_all_iff)

lemma base64_encode_nonempty: "bs \<noteq> [] \<Longrightarrow> base64_encode bs \<noteq> []"
  by (cases bs rule: base64_encode.cases) simp_all

lemma decode_group:
  assumes "n1 < 64" "n2 < 64" "n3 < 64" "n4 < 64"
  shows "base64_decode (sextet_char n1 # sextet_char n2 # sextet_char n3 # sextet_char n4 # s) =
         of_nat (n1 * 4 + n2 div 16) # of_nat ((n2 mod 16) * 16 + n3 div 4) #
         of_nat ((n3 mod 4) * 64 + n4) # base64_decode s"
  using assms
  by (simp add: base64_decode_def is_sextet_char_sextet char_sextet_sextet_char sextet_char_not_pad)

lemma decode_tail2:
  assumes "n1 < 64" "n2 < 64" "n3 < 64"
  shows "base64_decode [sextet_char n1, sextet_char n2, sextet_char n3, CHR ''=''] =
         [of_nat (n1 * 4 + n2 div 16), of_nat ((n2 mod 16) * 16 + n3 div 4)]"
  using assms
  by (simp add: base64_decode_def is_sextet_char_sextet char_sextet_sextet_char sextet_char_not_pad)

lemma decode_tail1:
  assumes "n1 < 64" "n2 < 64"
  shows "base64_decode [sextet_char n1, sextet_char n2, CHR ''='', CHR ''=''] =
         [of_nat (n1 * 4 + n2 div 16)]"
  using assms
  by (simp add: base64_decode_def is_sextet_char_sextet char_sextet_sextet_char sextet_char_not_pad)

lemma byte_of_unat: "n = unat (x :: byte) \<Longrightarrow> of_nat n = x"
  by simp

lemma byte1: "of_nat (unat x div 4 * 4 + ((unat x mod 4) * 16 + unat (y :: byte) div 16) div 16) = (x :: byte)"
  by (rule byte_of_unat) (rule regroup1 [OF unat_byte_less])

lemma byte2:
  "of_nat ((((unat (x :: byte) mod 4) * 16 + unat y div 16) mod 16) * 16 +
           ((unat y mod 16) * 4 + unat (z :: byte) div 64) div 4) = (y :: byte)"
  by (rule byte_of_unat) (rule regroup2 [OF unat_byte_less unat_byte_less])

lemma byte3: "of_nat ((((unat (y :: byte) mod 16) * 4 + unat z div 64) mod 4) * 64 + unat z mod 64) = (z :: byte)"
  by (rule byte_of_unat) (rule regroup3 [OF unat_byte_less])

lemma byte2_pad:
  "of_nat ((((unat (x :: byte) mod 4) * 16 + unat y div 16) mod 16) * 16 + ((unat y mod 16) * 4) div 4) = (y :: byte)"
  by (rule byte_of_unat) (rule regroup2_pad [OF unat_byte_less])

lemma byte1_pad: "of_nat (unat x div 4 * 4 + ((unat x mod 4) * 16) div 16) = (x :: byte)"
  by (rule byte_of_unat) (rule regroup1_pad)

lemma base64_decode_encode: "base64_decode (base64_encode bs) = bs"
proof (induction bs rule: base64_encode.induct)
  case (1 x y z rest)
  then show ?case
    by (simp only: base64_encode.simps decode_group [OF sextet_hi sextet_mid1 sextet_mid2 sextet_lo]
        byte1 byte2 byte3)
next
  case (2 x y)
  show ?case
    by (simp only: base64_encode.simps decode_tail2 [OF sextet_hi sextet_mid1 sextet_pad2]
        byte1 byte2_pad)
next
  case (3 x)
  show ?case
    by (simp only: base64_encode.simps decode_tail1 [OF sextet_hi sextet_pad1] byte1_pad)
next
  case 4
  show ?case by (simp add: base64_decode_def)
qed

section \<open>Helper lemmas: replacing one character of a base64 string\<close>























section \<open>Helper lemmas: the formatted envelope\<close>

lemma split_sep_no_sep: "sep \<notin> set a \<Longrightarrow> split_sep sep a = [a]"
  by (induction a) auto

lemma split_sep_append: "sep \<notin> set a \<Longrightarrow> split_sep sep (a @ sep # rest) = a # split_sep sep rest"
  by (induction a) (auto split: list.splits)

lemma split_join5:
  assumes "sep \<notin> set v" "sep \<notin> set a" "sep \<notin> set b" "sep \<notin> set c" "sep \<notin> set d"
  shows "split_sep sep (v @ sep # (a @ sep # (b @ sep # (c @ sep # d)))) = [v, a, b, c, d]"
  by (simp only: split_sep_append [OF assms(1)] split_sep_append [OF assms(2)]
      split_sep_append [OF assms(3)] split_sep_append [OF assms(4)] split_sep_no_sep [OF assms(5)])

lemma split_join4:
  assumes "sep \<notin> set a" "sep \<notin> set b" "sep \<notin> set c" "sep \<notin> set d"
  shows "split_sep sep (a @ sep # (b @ sep # (c @ sep # d))) = [a, b, c, d]"
  by (simp only: split_sep_append [OF assms(1)] split_sep_append [OF assms(2)]
      split_sep_append [OF assms(3)] split_sep_no_sep [OF assms(4)])

lemma formatted_unfold:
  "formatEncryptedPayload a b c d =
   FORMAT_PREFIX @ (FORMAT_VERSION @ FORMAT_SEPARATOR # (a @ FORMAT_SEPARATOR # (b @ FORMAT_SEPARATOR # (c @ FORMAT_SEPARATOR # d))))"
  by (simp add: formatEncryptedPayload_def)

lemma formatted_prefix: "prefix FORMAT_PREFIX (formatEncryptedPayload a b c d)"
  by (simp only: formatted_unfold prefixI)

lemma formatted_parts:
  assumes "CHR '':'' \<notin> set a" "CHR '':'' \<notin> set b" "CHR '':'' \<notin> set c" "CHR '':'' \<notin> set d"
  shows "split_sep FORMAT_SEPARATOR (drop (length FORMAT_PREFIX) (formatEncryptedPayload a b c d)) =
         [FORMAT_VERSION, a, b, c, d]"
proof -
  have v: "FORMAT_SEPARATOR \<notin> set FORMAT_VERSION"
    by (simp add: FORMAT_SEPARATOR_def FORMAT_VERSION_def)
  have sp: "split_sep FORMAT_SEPARATOR
              (FORMAT_VERSION @ FORMAT_SEPARATOR # (a @ FORMAT_SEPARATOR # (b @ FORMAT_SEPARATOR # (c @ FORMAT_SEPARATOR # d)))) =
            [FORMAT_VERSION, a, b, c, d]"
    by (rule split_join5 [OF v]) (simp_all add: FORMAT_SEPARATOR_def assms)
  have "drop (length FORMAT_PREFIX) (formatEncryptedPayload a b c d) =
        FORMAT_VERSION @ FORMAT_SEPARATOR # (a @ FORMAT_SEPARATOR # (b @ FORMAT_SEPARATOR # (c @ FORMAT_SEPARATOR # d)))"
    by (simp add: formatted_unfold)
  then show ?thesis by (simp only: sp)
qed

lemma FORMAT_VERSION_nonempty: "FORMAT_VERSION \<noteq> []"
  by (simp add: FORMAT_VERSION_def)

lemma parse_formatted:
  assumes "CHR '':'' \<notin> set a" "CHR '':'' \<notin> set b" "CHR '':'' \<notin> set c" "CHR '':'' \<notin> set d"
  shows "parseEncryptedData (formatEncryptedPayload a b c d) =
         (if a = [] \<or> b = [] \<or> c = [] \<or> d = [] then Inl InvalidEncryptedDataFormat
          else Inl (InvalidPartCount 6 5))"
proof -
  have nth: "nth_opt [FORMAT_VERSION, a, b, c, d] 0 = Some FORMAT_VERSION"
    "nth_opt [FORMAT_VERSION, a, b, c, d] 1 = Some a"
    "nth_opt [FORMAT_VERSION, a, b, c, d] 2 = Some b"
    "nth_opt [FORMAT_VERSION, a, b, c, d] 3 = Some c"
    "nth_opt [FORMAT_VERSION, a, b, c, d] 4 = Some d"
    by (simp_all add: nth_opt_def)
  have val: "validateEncryptedComponents (formatEncryptedPayload a b c d)
               [FORMAT_VERSION, a, b, c, d] FORMAT_VERSION a b c d = Inl (InvalidPartCount 6 5)"
    by (simp add: validateEncryptedComponents_def formatted_prefix FORMAT_EXPECTED_PARTS_def)
  show ?thesis
    unfolding parseEncryptedData_def Let_def formatted_parts [OF assms] nth
    by (simp add: val FORMAT_VERSION_nonempty)
qed


lemma regex_formatted:
  assumes cls: "list_all is_envelope_class_char a" "list_all is_envelope_class_char b"
    "list_all is_envelope_class_char c" "list_all is_envelope_class_char d"
    and ne: "a \<noteq> []" "b \<noteq> []" "c \<noteq> []" "d \<noteq> []"
  shows "matches_envelope_regex (formatEncryptedPayload a b c d)"
proof -
  have nc: "CHR '':'' \<notin> set x" if "list_all is_envelope_class_char x" for x
  proof
    assume "CHR '':'' \<in> set x"
    with that have "is_envelope_class_char (CHR '':'')" by (simp add: list_all_iff)
    then show False by (rule class_char_not_colon [THEN notE]) (rule refl)
  qed
  let ?body = "a @ CHR '':'' # (b @ CHR '':'' # (c @ CHR '':'' # d))"
  have e: "formatEncryptedPayload a b c d = ''ENC2:v1:'' @ ?body"
    by (simp add: formatEncryptedPayload_def FORMAT_PREFIX_def FORMAT_VERSION_def FORMAT_SEPARATOR_def)
  have p: "prefix ''ENC2:v1:'' (formatEncryptedPayload a b c d)"
    by (rule prefixI) (rule e)
  have "drop 8 (''ENC2:v1:'' @ ?body) = ?body" by simp
  then have dr: "drop 8 (formatEncryptedPayload a b c d) = ?body" by (simp only: e)
  have sp: "split_sep (CHR '':'') ?body = [a, b, c, d]"
    by (rule split_join4) (rule nc, rule cls)+
  show ?thesis
    unfolding matches_envelope_regex_def Let_def dr sp
    using p cls ne by simp
qed

section \<open>Helper lemmas: what a successful encrypt returns\<close>

lemma generateSecureBytes_Inr:
  assumes "generateSecureBytes P n w = (Inr bs, w')"
  shows "length bs = n \<and> files w' = files w \<and> calls w' = calls w"
  using assms
  by (auto simp: generateSecureBytes_def randomBytes_def split: sum.splits)

lemma generateBase64_Inr:
  assumes "generateBase64 P n w = (Inr s, w')"
  shows "(\<exists>bs. s = base64_encode bs \<and> length bs = n) \<and> files w' = files w \<and> calls w' = calls w"
proof -
  from assms obtain bs where g: "generateSecureBytes P n w = (Inr bs, w')" and s: "s = base64_encode bs"
    by (auto simp: generateBase64_def split: prod.splits sum.splits)
  from generateSecureBytes_Inr [OF g] s show ?thesis by blast
qed

lemma generateWebCryptoIV_Inr:
  assumes "generateWebCryptoIV P w = (Inr bs, w')"
  shows "length bs = BYTE_LENGTHS_WEB_CRYPTO_IV \<and> files w' = files w \<and> calls w' = calls w"
proof -
  from assms have "generateSecureBytes P BYTE_LENGTHS_WEB_CRYPTO_IV w = (Inr bs, w')"
    by (auto simp: generateWebCryptoIV_def split: sum.splits)
  then show ?thesis by (rule generateSecureBytes_Inr)
qed

lemma deriveKeysWithArgon2_files: "files (snd (deriveKeysWithArgon2 P k slt w)) = files w"
  by (simp add: deriveKeysWithArgon2_def Let_def log_call_def split: sum.splits option.splits)

lemma computeHMAC_files: "files (snd (computeHMAC P key dat w)) = files w"
  by (simp add: computeHMAC_def Let_def log_call_def split: option.splits)

lemma encryptBuffer_files: "files (snd (encryptBuffer P ivb key v w)) = files w"
  by (simp add: encryptBuffer_def Let_def log_call_def split: option.splits)

lemma validateEncryptionPrerequisites_Inr:
  assumes "validateEncryptionPrerequisites P v var w = (Inr k, w1)"
  shows "getSecretKeyFromEnvironment P var w = (Inr k, w1) \<and> validateSecretKey k = Inr () \<and> v \<noteq> []"
  using assms
  by (auto simp: validateEncryptionPrerequisites_def validateInputs_def
      split: prod.splits sum.splits if_splits)

lemma generateEncryptionComponents_Inr:
  assumes "generateEncryptionComponents P k w = (Inr (slt, ivb, keys), w')"
  shows "(\<exists>sb. slt = base64_encode sb \<and> length sb = BYTE_LENGTHS_SALT) \<and>
         length ivb = BYTE_LENGTHS_WEB_CRYPTO_IV \<and> files w' = files w"
proof -
  from assms obtain w1 w2 where
    a: "generateBase64 P BYTE_LENGTHS_SALT w = (Inr slt, w1)" and
    b: "generateWebCryptoIV P w1 = (Inr ivb, w2)" and
    c: "deriveKeysWithArgon2 P k slt w2 = (Inr keys, w')"
    by (auto simp: generateEncryptionComponents_def generateBase64Salt_def
        split: prod.splits sum.splits)
  from deriveKeysWithArgon2_files [of P k slt w2] c have "files w' = files w2" by simp
  with generateBase64_Inr [OF a] generateWebCryptoIV_Inr [OF b] show ?thesis by simp
qed

lemma createEncryptedPayload_Inr:
  assumes "createEncryptedPayload P v slt ivb ek mk w = (Inr (raw, comps), w')"
  shows "(\<exists>buf sig. raw = formatEncryptedPayload slt (base64_encode ivb) (base64_encode buf) (base64_encode sig) \<and>
            subtle_encrypt P ek ivb (textEncoder_encode P v) = Some buf \<and>
            subtle_sign P mk (prepareHMACData slt (base64_encode ivb) (base64_encode buf)) = Some sig) \<and>
         files w' = files w"
  using assms
  by (auto simp: createEncryptedPayload_def encryptBuffer_def computeHMAC_def Let_def log_call_def
      split: prod.splits sum.splits option.splits)

lemma encrypt_Inr:
  assumes "encrypt P v var w = (Inr env, w')"
  shows "\<exists>k w1 sb ivb buf sig.
           getSecretKeyFromEnvironment P var w = (Inr k, w1) \<and> validateSecretKey k = Inr () \<and>
           v \<noteq> [] \<and> files w' = files w1 \<and>
           length sb = BYTE_LENGTHS_SALT \<and> length ivb = BYTE_LENGTHS_WEB_CRYPTO_IV \<and>
           (\<exists>key. subtle_encrypt P key ivb (textEncoder_encode P v) = Some buf) \<and>
           (\<exists>key dat. subtle_sign P key dat = Some sig) \<and>
           env = formatEncryptedPayload (base64_encode sb) (base64_encode ivb)
                   (base64_encode buf) (base64_encode sig)"
proof -
  from assms obtain k w1 slt ivb keys w2 comps where
    a: "validateEncryptionPrerequisites P v var w = (Inr k, w1)" and
    b: "generateEncryptionComponents P k w1 = (Inr (slt, ivb, keys), w2)" and
    c: "createEncryptedPayload P v slt ivb (encryptionKey keys) (hmacKey keys) w2 = (Inr (env, comps), w')"
    by (auto simp: encrypt_def split: prod.splits sum.splits)
  from validateEncryptionPrerequisites_Inr [OF a] have
    a1: "getSecretKeyFromEnvironment P var w = (Inr k, w1)" and a2: "validateSecretKey k = Inr ()"
    and a3: "v \<noteq> []" by simp_all
  from generateEncryptionComponents_Inr [OF b] obtain sb where
    b1: "slt = base64_encode sb" and b2: "length sb = BYTE_LENGTHS_SALT"
    and b3: "length ivb = BYTE_LENGTHS_WEB_CRYPTO_IV" and b4: "files w2 = files w1" by blast
  from createEncryptedPayload_Inr [OF c] obtain buf sig where
    c1: "env = formatEncryptedPayload slt (base64_encode ivb) (base64_encode buf) (base64_encode sig)"
    and c2: "subtle_encrypt P (encryptionKey keys) ivb (textEncoder_encode P v) = Some buf"
    and c3: "subtle_sign P (hmacKey keys) (prepareHMACData slt (base64_encode ivb) (base64_encode buf)) = Some sig"
    and c4: "files w' = files w2" by blast
  have f: "files w' = files w1" using b4 c4 by simp
  have e1: "\<exists>key. subtle_encrypt P key ivb (textEncoder_encode P v) = Some buf" using c2 by (rule exI)
  have e2: "\<exists>key dat. subtle_sign P key dat = Some sig" using c3 by blast
  have e3: "env = formatEncryptedPayload (base64_encode sb) (base64_encode ivb)
                   (base64_encode buf) (base64_encode sig)" using c1 b1 by simp
  from a1 a2 a3 f b2 b3 e1 e2 e3 show ?thesis by blast
qed

section \<open>Helper lemmas: resolving the secret, and decrypt step by step\<close>

lemma readEnvFileContent_fst:
  "fst (readEnvFileContent p w) = (case files w p of None \<Rightarrow> [] | Some c \<Rightarrow> c)"
  by (simp add: readEnvFileContent_def ensureEnvFileExists_def Let_def split: option.splits)

lemma readEnvFileContent_snd_files:
  "files (snd (readEnvFileContent p w)) = (files w)(p \<mapsto> (case files w p of None \<Rightarrow> [] | Some c \<Rightarrow> c))"
  by (auto simp: readEnvFileContent_def ensureEnvFileExists_def Let_def split: option.splits)

lemma readEnvFileContent_calls: "calls (snd (readEnvFileContent p w)) = calls w"
  by (simp add: readEnvFileContent_def ensureEnvFileExists_def Let_def split: option.splits)

lemma getSecret_fst:
  "fst (getSecretKeyFromEnvironment P var w) = resolve_secret var (files w (secretFilePath P))"
proof -
  obtain c w1 where r: "readEnvFileContent (secretFilePath P) w = (c, w1)" by (cases "readEnvFileContent (secretFilePath P) w")
  with readEnvFileContent_fst [of "secretFilePath P" w]
  have c: "c = (case files w (secretFilePath P) of None \<Rightarrow> [] | Some c \<Rightarrow> c)" by simp
  show ?thesis
    by (simp add: getSecretKeyFromEnvironment_def getKeyValue_def r resolve_secret_def c [symmetric]
        split: option.splits)
qed

lemma getSecret_snd:
  "snd (getSecretKeyFromEnvironment P var w) = snd (readEnvFileContent (secretFilePath P) w)"
  by (simp add: getSecretKeyFromEnvironment_def getKeyValue_def split: prod.splits option.splits)

lemma getSecret_again:
  assumes "files w' = files (snd (getSecretKeyFromEnvironment P var w))"
  shows "fst (getSecretKeyFromEnvironment P var w') = fst (getSecretKeyFromEnvironment P var w)"
  using assms
  by (simp add: getSecret_fst getSecret_snd readEnvFileContent_snd_files resolve_secret_def
      split: option.splits)

lemma getSecret_Inl:
  "fst (getSecretKeyFromEnvironment P var w) = Inl e \<Longrightarrow> e = SecretKeyVariableNotFound var"
  by (auto simp: getSecret_fst resolve_secret_def split: option.splits if_splits)

lemma getSecret_Inr_nonempty:
  "fst (getSecretKeyFromEnvironment P var w) = Inr k \<Longrightarrow> k \<noteq> []"
  by (auto simp: getSecret_fst resolve_secret_def split: option.splits if_splits)

lemma getSecret_calls: "calls (snd (getSecretKeyFromEnvironment P var w)) = calls w"
  by (simp add: getSecret_snd readEnvFileContent_calls)

lemma decrypt_secret_error:
  assumes "fst (getSecretKeyFromEnvironment P var w) = Inl e"
  shows "decrypt P enc var w = (Inl e, snd (getSecretKeyFromEnvironment P var w))"
proof -
  obtain r w1 where g: "getSecretKeyFromEnvironment P var w = (r, w1)"
    by (cases "getSecretKeyFromEnvironment P var w")
  with assms have "r = Inl e" by simp
  with g show ?thesis by (simp add: decrypt_def)
qed

lemma decrypt_after_secret:
  assumes "fst (getSecretKeyFromEnvironment P var w) = Inr k"
  shows "decrypt P enc var w =
     (let w1 = snd (getSecretKeyFromEnvironment P var w) in
      case validateSecretKey k of
        Inl e \<Rightarrow> (Inl e, w1)
      | Inr _ \<Rightarrow>
     (case validateInputs enc k ''decrypt'' of
        Inl e \<Rightarrow> (Inl e, w1)
      | Inr _ \<Rightarrow>
     (case parseEncryptedData enc of
        Inl e \<Rightarrow> (Inl e, w1)
      | Inr comps \<Rightarrow>
     (case deriveKeysWithArgon2 P k (salt comps) w1 of
        (Inl e, w2) \<Rightarrow> (Inl e, w2)
      | (Inr keys, w2) \<Rightarrow>
     (case verifyHMACIntegrity P (salt comps) (iv comps) (cipherText comps) (receivedHmac comps)
             (hmacKey keys) w2 of
        (Inl e, w3) \<Rightarrow> (Inl e, w3)
      | (Inr _, w3) \<Rightarrow>
     (case performDecryption P (iv comps) (encryptionKey keys) (cipherText comps) w3 of
        (Inl e, w4) \<Rightarrow> (Inl e, w4)
      | (Inr decryptedBuffer, w4) \<Rightarrow> (Inr (textDecoder_decode P decryptedBuffer), w4)))))))"
proof -
  obtain r w1 where g: "getSecretKeyFromEnvironment P var w = (r, w1)"
    by (cases "getSecretKeyFromEnvironment P var w")
  with assms have "r = Inr k" by simp
  with g show ?thesis by (simp add: decrypt_def)
qed

lemma parse_error_kind: "parseEncryptedData enc = Inl e \<Longrightarrow> kind_of e = ValidationError"
  by (auto simp: parseEncryptedData_def validateEncryptedComponents_def Let_def
      split: option.splits if_splits sum.splits)

lemma validateSecretKey_kind: "validateSecretKey k = Inl e \<Longrightarrow> kind_of e = ValidationError"
  by (auto simp: validateSecretKey_def split: if_splits)

lemma validateInputs_kind: "validateInputs v k op = Inl e \<Longrightarrow> kind_of e = ValidationError"
  by (auto simp: validateInputs_def split: if_splits)

lemma formatted_nonempty: "formatEncryptedPayload a b c d \<noteq> []"
  by (simp add: formatEncryptedPayload_def FORMAT_PREFIX_def)

lemma decrypt_parse_error:
  assumes "fst (getSecretKeyFromEnvironment P var w) = Inr k" "validateSecretKey k = Inr ()"
    "enc \<noteq> []" "parseEncryptedData enc = Inl e"
  shows "fst (decrypt P enc var w) = Inl e"
  using decrypt_after_secret [OF assms(1), of enc] assms(2-4) getSecret_Inr_nonempty [OF assms(1)]
  by (simp add: validateInputs_def)

section \<open>Base64 validation (C9)\<close>

text \<open>
  C9, as stated: \<open>isValidBase64(s)\<close> is true exactly when \<open>s\<close> matches the regex, has a
  length that is a multiple of 4 and decodes. The empty string meets all three conditions,
  and the source returns false for it (its first guard is \<open>!value\<close>).
\<close>

theorem isValidBase64_empty_counterexample:
  "spec_isValidBase64 [] \<and> \<not> isValidBase64 []"
  by (simp add: spec_isValidBase64_def isValidBase64_def base64Regex_test_def decodes_def
      Buffer_from_base64_def)

text \<open>
  C9, amended: for every string \<open>s\<close>, \<open>isValidBase64(s)\<close> is true if and only if \<open>s\<close> is
  not empty, matches \<open>^[A-Za-z0-9+/]*={0,2}$\<close>, has a length that is a multiple of 4 and
  decodes as base64.
\<close>

theorem isValidBase64_characterisation:
  "isValidBase64 s \<longleftrightarrow> s \<noteq> [] \<and> spec_isValidBase64 s"
  by (simp add: spec_isValidBase64_def isValidBase64_def decodes_def Buffer_from_base64_def)

theorem isValidBase64_characterisation_witness:
  "isValidBase64 ''AAA='' \<and> ''AAA='' \<noteq> [] \<and> spec_isValidBase64 ''AAA=''"
  using isValidBase64_characterisation [of "''AAA=''"]
  by (simp add: spec_isValidBase64_def base64Regex_test_def decodes_def Buffer_from_base64_def
      is_base64_char_def base64_alphabet_def)

section \<open>Envelope validation (C2)\<close>

text \<open>
  C2 says the decryption-side validation accepts a string exactly when it is a well-formed
  envelope: the prefix, then five tokens (\<open>v1\<close> and four non-empty base64 fields). The
  source compares the number of tokens with \<open>EXPECTED_PARTS + 1 = 6\<close>, so every well-formed
  envelope is rejected: \<open>parseEncryptedData\<close> raises "Expected 6 parts, got 5" and
  \<open>isEncrypted\<close> returns false.
\<close>

theorem well_formed_envelope_rejected:
  assumes "isWellFormedEnvelope s"
  shows "parseEncryptedData s = Inl (InvalidPartCount 6 5) \<and> \<not> isEncrypted s"
proof -
  let ?toks = "split_sep FORMAT_SEPARATOR (drop (length FORMAT_PREFIX) s)"
  from assms have pre: "prefix FORMAT_PREFIX s" and len: "length ?toks = 5"
    and ver: "hd ?toks = FORMAT_VERSION"
    and rest: "list_all (\<lambda>t. spec_isValidBase64 t \<and> t \<noteq> []) (tl ?toks)"
    by (simp_all add: isWellFormedEnvelope_def Let_def)
  from len obtain a b c d e where toks: "?toks = [a, b, c, d, e]" by (rule length5E)
  from ver toks have a: "a = FORMAT_VERSION" by simp
  from rest toks have ne: "b \<noteq> []" "c \<noteq> []" "d \<noteq> []" "e \<noteq> []" by simp_all
  have p: "parseEncryptedData s = Inl (InvalidPartCount 6 5)"
    using pre toks a ne
    by (simp add: parseEncryptedData_def Let_def nth_opt_def validateEncryptedComponents_def
        FORMAT_EXPECTED_PARTS_def FORMAT_VERSION_def)
  have "s \<noteq> []" using pre by (auto simp: FORMAT_PREFIX_def)
  then have q: "\<not> isEncrypted s"
    using pre toks
    by (simp add: isEncrypted_def Let_def replace_first_prefix FORMAT_EXPECTED_PARTS_def)
  from p q show ?thesis ..
qed

theorem well_formed_envelope_rejected_witness:
  "isWellFormedEnvelope ''ENC2:v1:AAAA:AAAA:AAAA:AAAA'' \<and>
   parseEncryptedData ''ENC2:v1:AAAA:AAAA:AAAA:AAAA'' = Inl (InvalidPartCount 6 5) \<and>
   \<not> isEncrypted ''ENC2:v1:AAAA:AAAA:AAAA:AAAA''"
proof -
  have h: "isWellFormedEnvelope ''ENC2:v1:AAAA:AAAA:AAAA:AAAA''"
    by (simp add: isWellFormedEnvelope_def FORMAT_PREFIX_def FORMAT_SEPARATOR_def
        FORMAT_VERSION_def spec_isValidBase64_def base64Regex_test_def decodes_def
        Buffer_from_base64_def is_base64_char_def base64_alphabet_def)
  from well_formed_envelope_rejected [OF h] h show ?thesis by simp
qed

section \<open>Helper lemmas: key derivation and the MAC check\<close>

lemma parse_Inr_valid:
  assumes "parseEncryptedData enc = Inr comps"
  shows "isValidBase64 (salt comps) \<and> isValidBase64 (iv comps) \<and> isValidBase64 (cipherText comps) \<and>
         isValidBase64 (receivedHmac comps) \<and> enc \<noteq> []"
proof -
  let ?parts = "split_sep FORMAT_SEPARATOR (drop (length FORMAT_PREFIX) enc)"
  from assms obtain ver slt ivv ct mac where
    v: "validateEncryptedComponents enc ?parts ver slt ivv ct mac = Inr ()"
    and c: "comps = \<lparr>version = ver, salt = slt, iv = ivv, cipherText = ct, receivedHmac = mac\<rparr>"
    by (auto simp: parseEncryptedData_def Let_def split: option.splits if_splits sum.splits)
  from v have "prefix FORMAT_PREFIX enc" and
    b: "isValidBase64 slt \<and> isValidBase64 ivv \<and> isValidBase64 ct \<and> isValidBase64 mac"
    by (auto simp: validateEncryptedComponents_def Let_def split: if_splits)
  then have "enc \<noteq> []" by (auto simp: FORMAT_PREFIX_def)
  with b c show ?thesis by simp
qed

lemma isValidBase64_nonempty: "isValidBase64 s \<Longrightarrow> s \<noteq> []"
  by (auto simp: isValidBase64_def)

lemma deriveKeys_eval:
  assumes "isValidBase64 slt"
  shows "deriveKeysWithArgon2 P secretKey slt w =
     (case argon2_hash P secretKey (base64_decode slt)
             (BYTE_LENGTHS_SECRET_KEY + BYTE_LENGTHS_HMAC_KEY_LENGTH)
             ARGON2_MEMORY_COST ARGON2_TIME_COST ARGON2_PARALLELISM of
        None \<Rightarrow> (Inl (PlatformFailure ''argon2.hash''), w\<lparr>calls := calls w @ [DeriveKeysWithArgon2, Argon2Hash]\<rparr>)
      | Some out \<Rightarrow>
          (Inr \<lparr>encryptionKey = take BYTE_LENGTHS_SECRET_KEY out,
                hmacKey = drop BYTE_LENGTHS_SECRET_KEY out\<rparr>,
           w\<lparr>calls := calls w @ [DeriveKeysWithArgon2, Argon2Hash]\<rparr>))"
  using assms isValidBase64_nonempty [OF assms]
  by (simp add: deriveKeysWithArgon2_def validateBase64String_def log_call_def Let_def
      split: option.splits)

lemma verifyHMACIntegrity_eval:
  "verifyHMACIntegrity P slt ivv ct received key w =
     (case subtle_sign P key (prepareHMACData slt ivv ct) of
        None \<Rightarrow> (Inl (PlatformFailure ''subtle.sign''), w\<lparr>calls := calls w @ [SubtleSign]\<rparr>)
      | Some sig \<Rightarrow>
          (if verifyHMAC (base64_encode sig) received then Inr () else Inl HmacMismatch,
           w\<lparr>calls := calls w @ [SubtleSign]\<rparr>))"
  by (simp add: verifyHMACIntegrity_def computeHMAC_def log_call_def Let_def split: option.splits)

lemma verifyHMAC_iff: "verifyHMAC a b \<longleftrightarrow> base64_decode a = base64_decode b"
  by (auto simp: verifyHMAC_def Let_def)

lemma verifyHMACIntegrity_mismatch:
  assumes "subtle_sign P key (prepareHMACData slt ivv ct) = Some sig"
    and "base64_decode received \<noteq> sig"
  shows "fst (verifyHMACIntegrity P slt ivv ct received key w) = Inl HmacMismatch"
proof -
  from assms(2) have "\<not> verifyHMAC (base64_encode sig) received"
    unfolding verifyHMAC_iff base64_decode_encode by (rule not_sym)
  with assms(1) show ?thesis by (simp add: verifyHMACIntegrity_eval)
qed

lemma dropWhile_keeps: "x \<in> set xs \<Longrightarrow> \<not> P x \<Longrightarrow> x \<in> set (dropWhile P xs)"
  by (induction xs) auto



lemma valid_base64_no_colon:
  assumes "isValidBase64 s"
  shows "CHR '':'' \<notin> set s"
proof
  assume c: "CHR '':'' \<in> set s"
  from assms have r: "dropWhile is_base64_char s \<in> {[], ''='', ''==''}"
    by (auto simp: isValidBase64_def base64Regex_test_def split: if_splits)
  have "\<not> is_base64_char (CHR '':'')" using base64_char_not_colon by blast
  with c have "CHR '':'' \<in> set (dropWhile is_base64_char s)" by (rule dropWhile_keeps)
  moreover from r have "set (dropWhile is_base64_char s) \<subseteq> {CHR ''=''}"
    by (elim insertE emptyE) (simp_all (no_asm_simp))
  ultimately show False by auto
qed

lemma split_join6:
  assumes "sep \<notin> set v" "sep \<notin> set a" "sep \<notin> set b" "sep \<notin> set c" "sep \<notin> set d"
    "sep \<notin> set e"
  shows "split_sep sep (v @ sep # (a @ sep # (b @ sep # (c @ sep # (d @ sep # e))))) =
         [v, a, b, c, d, e]"
  by (simp only: split_sep_append [OF assms(1)] split_sep_append [OF assms(2)]
      split_sep_append [OF assms(3)] split_sep_append [OF assms(4)]
      split_sep_append [OF assms(5)] split_sep_no_sep [OF assms(6)])

lemma extended_unfold:
  "formatEncryptedPayload a b c d @ FORMAT_SEPARATOR # e =
   FORMAT_PREFIX @ (FORMAT_VERSION @ FORMAT_SEPARATOR # (a @ FORMAT_SEPARATOR #
     (b @ FORMAT_SEPARATOR # (c @ FORMAT_SEPARATOR # (d @ FORMAT_SEPARATOR # e)))))"
  by (simp add: formatEncryptedPayload_def)

lemma extended_parts:
  assumes "CHR '':'' \<notin> set a" "CHR '':'' \<notin> set b" "CHR '':'' \<notin> set c" "CHR '':'' \<notin> set d"
    "CHR '':'' \<notin> set e"
  shows "split_sep FORMAT_SEPARATOR
           (drop (length FORMAT_PREFIX) (formatEncryptedPayload a b c d @ FORMAT_SEPARATOR # e)) =
         [FORMAT_VERSION, a, b, c, d, e]"
proof -
  have v: "FORMAT_SEPARATOR \<notin> set FORMAT_VERSION"
    by (simp add: FORMAT_SEPARATOR_def FORMAT_VERSION_def)
  have sp: "split_sep FORMAT_SEPARATOR
              (FORMAT_VERSION @ FORMAT_SEPARATOR # (a @ FORMAT_SEPARATOR # (b @ FORMAT_SEPARATOR #
                 (c @ FORMAT_SEPARATOR # (d @ FORMAT_SEPARATOR # e))))) =
            [FORMAT_VERSION, a, b, c, d, e]"
    by (rule split_join6 [OF v]) (simp_all add: FORMAT_SEPARATOR_def assms)
  have "drop (length FORMAT_PREFIX) (formatEncryptedPayload a b c d @ FORMAT_SEPARATOR # e) =
        FORMAT_VERSION @ FORMAT_SEPARATOR # (a @ FORMAT_SEPARATOR # (b @ FORMAT_SEPARATOR #
          (c @ FORMAT_SEPARATOR # (d @ FORMAT_SEPARATOR # e))))"
    by (simp add: extended_unfold)
  then show ?thesis by (simp only: sp)
qed

lemma parse_extended:
  assumes v: "isValidBase64 a" "isValidBase64 b" "isValidBase64 c" "isValidBase64 d"
    and e: "CHR '':'' \<notin> set e"
  shows "parseEncryptedData (formatEncryptedPayload a b c d @ FORMAT_SEPARATOR # e) =
         Inr \<lparr>version = FORMAT_VERSION, salt = a, iv = b, cipherText = c, receivedHmac = d\<rparr>"
proof -
  note nc = v [THEN valid_base64_no_colon]
  note ne = v [THEN isValidBase64_nonempty]
  have nth: "nth_opt [FORMAT_VERSION, a, b, c, d, e] 0 = Some FORMAT_VERSION"
    "nth_opt [FORMAT_VERSION, a, b, c, d, e] 1 = Some a"
    "nth_opt [FORMAT_VERSION, a, b, c, d, e] 2 = Some b"
    "nth_opt [FORMAT_VERSION, a, b, c, d, e] 3 = Some c"
    "nth_opt [FORMAT_VERSION, a, b, c, d, e] 4 = Some d"
    by (simp_all add: nth_opt_def)
  have p: "prefix FORMAT_PREFIX (formatEncryptedPayload a b c d @ FORMAT_SEPARATOR # e)"
    by (simp only: extended_unfold prefixI)
  have val: "validateEncryptedComponents (formatEncryptedPayload a b c d @ FORMAT_SEPARATOR # e)
               [FORMAT_VERSION, a, b, c, d, e] FORMAT_VERSION a b c d = Inr ()"
    by (simp add: validateEncryptedComponents_def p FORMAT_EXPECTED_PARTS_def v ne)
  show ?thesis
    unfolding parseEncryptedData_def Let_def extended_parts [OF nc e] nth
    by (simp add: val FORMAT_VERSION_nonempty ne)
qed

lemma extended_not_well_formed:
  assumes v: "isValidBase64 a" "isValidBase64 b" "isValidBase64 c" "isValidBase64 d"
    and e: "CHR '':'' \<notin> set e"
  shows "\<not> isWellFormedEnvelope (formatEncryptedPayload a b c d @ FORMAT_SEPARATOR # e)"
  unfolding isWellFormedEnvelope_def Let_def extended_parts [OF v [THEN valid_base64_no_colon] e]
  by simp

lemma performDecryption_calls:
  "calls (snd (performDecryption P ivv key ct w)) = calls w @ [PerformDecryption, SubtleDecrypt]"
  by (simp add: performDecryption_def decryptBuffer_def log_call_def Let_def split: option.splits)

lemma verifyHMACIntegrity_calls:
  "calls (snd (verifyHMACIntegrity P slt ivv ct received key w)) = calls w @ [SubtleSign]"
  by (simp add: verifyHMACIntegrity_eval split: option.splits)

lemma deriveKeys_calls:
  assumes "isValidBase64 slt"
  shows "calls (snd (deriveKeysWithArgon2 P k slt w)) = calls w @ [DeriveKeysWithArgon2, Argon2Hash]"
  by (simp add: deriveKeys_eval [OF assms] split: option.splits)

lemma decrypt_parsed_calls:
  assumes secret: "fst (getSecretKeyFromEnvironment P var w) = Inr k" "validateSecretKey k = Inr ()"
    and parse: "parseEncryptedData enc = Inr comps"
  shows "\<exists>rest. calls (snd (decrypt P enc var w)) =
           calls w @ DeriveKeysWithArgon2 # Argon2Hash # rest"
proof -
  from parse_Inr_valid [OF parse] have sv: "isValidBase64 (salt comps)" and ne: "enc \<noteq> []"
    by simp_all
  have vi: "validateInputs enc k ''decrypt'' = Inr ()"
    using ne getSecret_Inr_nonempty [OF secret(1)] by (simp add: validateInputs_def)
  let ?w1 = "snd (getSecretKeyFromEnvironment P var w)"
  obtain r2 w2 where d: "deriveKeysWithArgon2 P k (salt comps) ?w1 = (r2, w2)"
    by (cases "deriveKeysWithArgon2 P k (salt comps) ?w1")
  from deriveKeys_calls [OF sv, of P k ?w1] d
  have c2: "calls w2 = calls w @ [DeriveKeysWithArgon2, Argon2Hash]"
    by (simp add: getSecret_calls)
  show ?thesis
  proof (cases r2)
    case (Inl x)
    with d c2 show ?thesis
      by (simp add: decrypt_after_secret [OF secret(1)] secret(2) vi parse)
  next
    case (Inr keys)
    obtain r3 w3 where h: "verifyHMACIntegrity P (salt comps) (iv comps) (cipherText comps)
        (receivedHmac comps) (hmacKey keys) w2 = (r3, w3)"
      by (cases "verifyHMACIntegrity P (salt comps) (iv comps) (cipherText comps)
        (receivedHmac comps) (hmacKey keys) w2")
    from verifyHMACIntegrity_calls [of P "salt comps" "iv comps" "cipherText comps"
        "receivedHmac comps" "hmacKey keys" w2] h c2
    have c3: "calls w3 = calls w @ [DeriveKeysWithArgon2, Argon2Hash, SubtleSign]" by simp
    show ?thesis
    proof (cases r3)
      case (Inl x)
      with d Inr h c3 show ?thesis
        by (simp add: decrypt_after_secret [OF secret(1)] secret(2) vi parse)
    next
      case i3: (Inr u)
      obtain r4 w4 where q: "performDecryption P (iv comps) (encryptionKey keys) (cipherText comps) w3 =
          (r4, w4)"
        by (cases "performDecryption P (iv comps) (encryptionKey keys) (cipherText comps) w3")
      from performDecryption_calls [of P "iv comps" "encryptionKey keys" "cipherText comps" w3] q c3
      have c4: "calls w4 = calls w @ [DeriveKeysWithArgon2, Argon2Hash, SubtleSign,
          PerformDecryption, SubtleDecrypt]" by simp
      from d Inr h i3 q c4 show ?thesis
        by (simp add: decrypt_after_secret [OF secret(1)] secret(2) vi parse split: sum.splits)
    qed
  qed
qed

section \<open>Helper lemmas: the secret file and the key generator\<close>

lemma generateBase64SecretKey_eval:
  "generateBase64SecretKey P w =
   (Inr (fresh_secret_key P w), w\<lparr>drawn := drawn w + BYTE_LENGTHS_SECRET_KEY\<rparr>)"
  by (simp add: generateBase64SecretKey_def generateBase64_def generateSecureBytes_def
      validateLength_def randomBytes_def fresh_secret_key_def BYTE_LENGTHS_SECRET_KEY_def
      MIN_SECURE_LENGTH_def MAX_REASONABLE_LENGTH_def)

lemma readEnvFileContent_eval:
  "readEnvFileContent p w =
   ((case files w p of None \<Rightarrow> [] | Some c \<Rightarrow> c),
    (case files w p of None \<Rightarrow> w\<lparr>files := (files w)(p \<mapsto> [])\<rparr> | Some c \<Rightarrow> w))"
  by (simp add: readEnvFileContent_def ensureEnvFileExists_def Let_def split: option.splits)

lemma extract_empty: "extractKeyValue [] keyName = None"
  by (simp add: extractKeyValue_def)

lemma ensureSecretKeyExists_eval:
  assumes "files w (secretFilePath P) = Some c"
  shows "ensureSecretKeyExists P keyName w =
     (case extractKeyValue c keyName of
        None \<Rightarrow> (Inl (SecretKeyMissingInFile keyName), w)
      | Some v \<Rightarrow> if js_trim v \<noteq> [] then (Inr (), w) else (Inl (SecretKeyMissingInFile keyName), w))"
  using assms
  by (simp add: ensureSecretKeyExists_def verifySecretKeyExists_def getKeyValue_def
      readEnvFileContent_eval split: option.splits)

lemma generateAndStore_skip:
  assumes "extractKeyValue (secret_file_content P w) (currentEnvSecretKey P) = Some v"
  shows "generateAndStoreSecretKey P w =
     (if js_trim v \<noteq> [] then Inr (fresh_secret_key P w)
      else Inl (SecretKeyMissingInFile (currentEnvSecretKey P)),
      w\<lparr>drawn := drawn w + BYTE_LENGTHS_SECRET_KEY\<rparr>)"
proof -
  from assms obtain c where c: "files w (secretFilePath P) = Some c"
    by (cases "files w (secretFilePath P)") (simp_all add: secret_file_content_def extract_empty)
  with assms have x: "extractKeyValue c (currentEnvSecretKey P) = Some v"
    by (simp add: secret_file_content_def)
  let ?w1 = "w\<lparr>drawn := drawn w + BYTE_LENGTHS_SECRET_KEY\<rparr>"
  have f1: "files ?w1 (secretFilePath P) = Some c" using c by simp
  have st: "storeEnvironmentKey P (currentEnvSecretKey P) (fresh_secret_key P w) True ?w1 = (False, ?w1)"
    using c x
    by (simp add: storeEnvironmentKey_def storeKeyInFile_def readEnvFileContent_eval
        shouldSkipExistingKey_def)
  show ?thesis
    by (simp add: generateAndStoreSecretKey_def generateBase64SecretKey_eval st
        ensureSecretKeyExists_eval [OF f1] x Let_def)
qed


lemma find_key_line_appended:
  assumes "find_key_line pat pre bol s = None"
    and "\<forall>c \<in> set pat. \<not> is_line_terminator c" and "pat \<noteq> []"
    and "s \<noteq> [] \<longrightarrow> is_line_terminator (last s)" and "s = [] \<longrightarrow> bol"
  shows "find_key_line pat pre bol (s @ pat @ g) =
         Some (pre @ s, takeWhile (\<lambda>x. \<not> is_line_terminator x) g,
               dropWhile (\<lambda>x. \<not> is_line_terminator x) g)"
  using assms
proof (induction s arbitrary: pre bol)
  case Nil
  then obtain p ps where p: "pat = p # ps" by (cases pat) auto
  from Nil have "bol" by simp
  then show ?case by (simp add: p)
next
  case (Cons c cs)
  have no: "\<not> (bol \<and> prefix pat ((c # cs) @ pat @ g))"
  proof
    assume a: "bol \<and> prefix pat ((c # cs) @ pat @ g)"
    from Cons.prems(1) a have np: "\<not> prefix pat (c # cs)" by (auto simp: Let_def split: if_splits)
    from a have "prefix pat ((c # cs) @ (pat @ g))" by simp
    with np obtain us where "pat = (c # cs) @ us" unfolding prefix_append by blast
    then have "last (c # cs) \<in> set pat" by (metis Un_iff last_in_set list.distinct(1) set_append)
    with Cons.prems(2) have "\<not> is_line_terminator (last (c # cs))" by blast
    with Cons.prems(4) show False by simp
  qed
  from Cons.prems(1) have rec: "find_key_line pat (pre @ [c]) (is_line_terminator c) cs = None"
    by (auto simp: Let_def split: if_splits)
  have l: "cs \<noteq> [] \<longrightarrow> is_line_terminator (last cs)" using Cons.prems(4) by auto
  have b: "cs = [] \<longrightarrow> is_line_terminator c" using Cons.prems(4) by auto
  from Cons.IH [OF rec Cons.prems(2) Cons.prems(3) l b]
  have "find_key_line pat (pre @ [c]) (is_line_terminator c) (cs @ pat @ g) =
         Some ((pre @ [c]) @ cs, takeWhile (\<lambda>x. \<not> is_line_terminator x) g,
               dropWhile (\<lambda>x. \<not> is_line_terminator x) g)" .
  with no show ?case by auto
qed

lemma ensureFileEndsWithNewline_last:
  "ensureFileEndsWithNewline s \<noteq> [] \<longrightarrow> is_line_terminator (last (ensureFileEndsWithNewline s))"
  by (simp add: ensureFileEndsWithNewline_def is_line_terminator_def)

lemma find_key_line_newline:
  assumes "find_key_line pat pre bol s = None" "\<forall>c \<in> set pat. \<not> is_line_terminator c" "pat \<noteq> []"
  shows "find_key_line pat pre bol (s @ [CHR 0x0A]) = None"
  using assms
proof (induction s arbitrary: pre bol)
  case Nil
  then obtain p ps where p: "pat = p # ps" by (cases pat) auto
  with Nil have "p \<noteq> CHR 0x0A" by (auto simp: is_line_terminator_def)
  then show ?case by (simp add: p)
next
  case (Cons c cs)
  have no: "\<not> (bol \<and> prefix pat ((c # cs) @ [CHR 0x0A]))"
  proof
    assume a: "bol \<and> prefix pat ((c # cs) @ [CHR 0x0A])"
    from Cons.prems(1) a have np: "\<not> prefix pat (c # cs)" by (auto simp: Let_def split: if_splits)
    with a obtain us where u: "pat = (c # cs) @ us" "prefix us [CHR 0x0A]" unfolding prefix_append by blast
    with np have "us = [CHR 0x0A]" by (cases us) auto
    with u have "CHR 0x0A \<in> set pat" by simp
    with Cons.prems(2) show False by (auto simp: is_line_terminator_def)
  qed
  from Cons.prems(1) have rec: "find_key_line pat (pre @ [c]) (is_line_terminator c) cs = None"
    by (auto simp: Let_def split: if_splits)
  from Cons.IH [OF rec Cons.prems(2) Cons.prems(3)] no show ?case by auto
qed

lemma extract_after_add:
  assumes none: "extractKeyValue content keyName = None"
    and key: "\<forall>c \<in> set keyName. \<not> is_line_terminator c"
    and val: "\<forall>c \<in> set v. \<not> is_line_terminator c"
  shows "extractKeyValue (addEnvironmentKey content keyName v) keyName = Some v"
proof -
  let ?pat = "keyName @ ''=''"
  have pk: "\<forall>c \<in> set ?pat. \<not> is_line_terminator c" using key by (auto simp: is_line_terminator_def)
  have pn: "?pat \<noteq> []" by simp
  from none have f: "find_key_line ?pat [] True content = None"
    by (auto simp: extractKeyValue_def split: option.splits prod.splits)
  have f': "find_key_line ?pat [] True (ensureFileEndsWithNewline content) = None"
    using f find_key_line_newline [OF f pk pn] by (simp add: ensureFileEndsWithNewline_def)
  have e: "ensureFileEndsWithNewline content = [] \<longrightarrow> True" by simp
  from find_key_line_appended [OF f' pk pn ensureFileEndsWithNewline_last e, of v]
  have "find_key_line ?pat [] True (ensureFileEndsWithNewline content @ ?pat @ v) =
        Some ([] @ ensureFileEndsWithNewline content, takeWhile (\<lambda>x. \<not> is_line_terminator x) v,
               dropWhile (\<lambda>x. \<not> is_line_terminator x) v)" .
  moreover have "takeWhile (\<lambda>x. \<not> is_line_terminator x) v = v" using val by simp
  ultimately show ?thesis
    by (simp add: extractKeyValue_def addEnvironmentKey_def formatEnvironmentKeyValue_def)
qed


lemma class_char_plain:
  "is_envelope_class_char c \<Longrightarrow> \<not> is_js_whitespace c \<and> \<not> is_line_terminator c"
  by (auto simp: is_envelope_class_char_def is_base64_char_def base64_alphabet_def
      is_js_whitespace_def is_line_terminator_def)

lemma js_trim_plain: "\<forall>c \<in> set s. \<not> is_js_whitespace c \<Longrightarrow> js_trim s = s"
proof -
  assume a: "\<forall>c \<in> set s. \<not> is_js_whitespace c"
  then have 1: "dropWhile is_js_whitespace s = s" by (cases s) auto
  from a have "\<forall>c \<in> set (rev s). \<not> is_js_whitespace c" by simp
  then have 2: "dropWhile is_js_whitespace (rev s) = rev s" by (cases "rev s") auto
  show ?thesis by (simp add: js_trim_def 1 2)
qed

lemma fresh_secret_key_plain:
  "(\<forall>c \<in> set (fresh_secret_key P w). \<not> is_line_terminator c) \<and>
   js_trim (fresh_secret_key P w) = fresh_secret_key P w \<and> fresh_secret_key P w \<noteq> []"
proof -
  let ?bs = "map (randomBytes_source P) [drawn w ..< drawn w + BYTE_LENGTHS_SECRET_KEY]"
  have cls: "\<forall>c \<in> set (base64_encode ?bs). is_envelope_class_char c"
    using base64_encode_chars [of ?bs] by (simp add: list_all_iff)
  have "?bs \<noteq> []" by (simp add: BYTE_LENGTHS_SECRET_KEY_def)
  then have ne: "base64_encode ?bs \<noteq> []" by (rule base64_encode_nonempty)
  from cls have a: "\<forall>c \<in> set (base64_encode ?bs). \<not> is_line_terminator c"
    and b: "\<forall>c \<in> set (base64_encode ?bs). \<not> is_js_whitespace c"
    using class_char_plain by blast+
  from a js_trim_plain [OF b] ne show ?thesis by (simp add: fresh_secret_key_def)
qed

lemma generateAndStore_store:
  assumes none: "extractKeyValue (secret_file_content P w) (currentEnvSecretKey P) = None"
    and key: "\<forall>c \<in> set (currentEnvSecretKey P). \<not> is_line_terminator c"
  shows "generateAndStoreSecretKey P w =
     (Inr (fresh_secret_key P w),
      w\<lparr>drawn := drawn w + BYTE_LENGTHS_SECRET_KEY,
        files := (files w)(secretFilePath P \<mapsto>
                   addEnvironmentKey (secret_file_content P w) (currentEnvSecretKey P) (fresh_secret_key P w))\<rparr>)"
proof -
  let ?k = "currentEnvSecretKey P" and ?g = "fresh_secret_key P w" and ?p = "secretFilePath P"
  let ?c = "secret_file_content P w"
  let ?w1 = "w\<lparr>drawn := drawn w + BYTE_LENGTHS_SECRET_KEY\<rparr>"
  let ?w3 = "?w1\<lparr>files := (files w)(?p \<mapsto> addEnvironmentKey ?c ?k ?g)\<rparr>"
  from none have nf: "\<not> environmentKeyExists ?c ?k"
    by (auto simp: environmentKeyExists_def extractKeyValue_def split: option.splits prod.splits)
  have st: "storeEnvironmentKey P ?k ?g True ?w1 = (True, ?w3)"
    using none nf
    by (cases "files w ?p")
      (simp_all add: storeEnvironmentKey_def storeKeyInFile_def readEnvFileContent_eval
        shouldSkipExistingKey_def updateEnvironmentKey_def secret_file_content_def)
  have f3: "files ?w3 ?p = Some (addEnvironmentKey ?c ?k ?g)" by simp
  from fresh_secret_key_plain [of P w] have gl: "\<forall>c \<in> set ?g. \<not> is_line_terminator c"
    and gt: "js_trim ?g \<noteq> []" by simp_all
  have x: "extractKeyValue (addEnvironmentKey ?c ?k ?g) ?k = Some ?g"
    by (rule extract_after_add [OF none key gl])
  have "generateAndStoreSecretKey P w = (Inr ?g, ?w3)"
    by (simp add: generateAndStoreSecretKey_def generateBase64SecretKey_eval st
        ensureSecretKeyExists_eval [OF f3] x gt Let_def)
  then show ?thesis by simp
qed

section \<open>Helper lemmas: the definitions run on the small platform\<close>

lemma demo_extract:
  "extractKeyValue demo_secret_file ''DEV_SECRET_KEY'' = Some ''0123456789abcdef0123456789abcdef''"
  by (simp add: extractKeyValue_def is_line_terminator_def demo_secret_file_def)

lemma demo_secret:
  "getSecretKeyFromEnvironment demo_platform ''DEV_SECRET_KEY'' (demo_world demo_secret_file n cs) =
   (Inr ''0123456789abcdef0123456789abcdef'', demo_world demo_secret_file n cs)"
  by (simp add: getSecretKeyFromEnvironment_def getKeyValue_def readEnvFileContent_def
      ensureEnvFileExists_def demo_world_def demo_platform_def demo_extract)

lemma demo_salt:
  "generateBase64Salt demo_platform (demo_world f 0 cs) =
   (Inr ''AAECAwQFBgcICQoLDA0ODxAREhMUFRYXGBkaGxwdHh8='', demo_world f 32 cs)"
  by (simp add: generateBase64Salt_def generateBase64_def generateSecureBytes_def validateLength_def
      randomBytes_def demo_world_def demo_platform_def BYTE_LENGTHS_SALT_def MIN_SECURE_LENGTH_def
      MAX_REASONABLE_LENGTH_def upt_rec sextet_char_def base64_alphabet_def)

lemma demo_iv:
  "generateWebCryptoIV demo_platform (demo_world f 32 cs) =
   (Inr [32, 33, 34, 35, 36, 37, 38, 39, 40, 41, 42, 43], demo_world f 44 cs)"
  by (simp add: generateWebCryptoIV_def generateSecureBytes_def validateLength_def
      randomBytes_def demo_world_def demo_platform_def BYTE_LENGTHS_WEB_CRYPTO_IV_def MIN_SECURE_LENGTH_def
      MAX_REASONABLE_LENGTH_def upt_rec)

lemma demo_salt_valid: "isValidBase64 ''AAECAwQFBgcICQoLDA0ODxAREhMUFRYXGBkaGxwdHh8=''"
  by (simp add: isValidBase64_def base64Regex_test_def Buffer_from_base64_def is_base64_char_def
      base64_alphabet_def)

lemma demo_salt_bytes:
  "base64_decode ''AAECAwQFBgcICQoLDA0ODxAREhMUFRYXGBkaGxwdHh8='' =
   [0, 1, 2, 3, 4, 5, 6, 7, 8, 9, 10, 11, 12, 13, 14, 15, 16, 17, 18, 19, 20, 21, 22, 23, 24, 25,
    26, 27, 28, 29, 30, 31]"
  by (simp add: base64_decode_def is_sextet_char_def is_base64_char_def char_sextet_def
      base64_alphabet_def)


lemma demo_derive:
  "deriveKeysWithArgon2 demo_platform ''0123456789abcdef0123456789abcdef''
     ''AAECAwQFBgcICQoLDA0ODxAREhMUFRYXGBkaGxwdHh8='' (demo_world f n cs) =
   (Inr \<lparr>encryptionKey = replicate 32 64, hmacKey = replicate 32 64\<rparr>,
    demo_world f n (cs @ [DeriveKeysWithArgon2, Argon2Hash]))"
  by (simp add: deriveKeysWithArgon2_def validateBase64String_def demo_salt_valid demo_salt_bytes
      log_call_def demo_world_def demo_platform_def BYTE_LENGTHS_SECRET_KEY_def
      BYTE_LENGTHS_HMAC_KEY_LENGTH_def Let_def)

lemma replicate_16: "replicate 16 x = [x, x, x, x, x, x, x, x, x, x, x, x, x, x, x, x]"
  by (simp add: numeral_eq_Suc)

lemma demo_encryptBuffer:
  "encryptBuffer demo_platform ivb key ''hunter2'' (demo_world f n cs) =
   (Inr [104, 117, 110, 116, 101, 114, 50, 0, 0, 0, 0, 0, 0, 0, 0, 0, 0, 0, 0, 0, 0, 0, 0],
    demo_world f n (cs @ [SubtleEncrypt]))"
  by (simp add: encryptBuffer_def log_call_def demo_world_def demo_platform_def Let_def replicate_16)

lemma demo_cipherText:
  "base64_encode [104, 117, 110, 116, 101, 114, 50, 0, 0, 0, 0, 0, 0, 0, 0, 0, 0, 0, 0, 0, 0, 0, 0] =
   ''aHVudGVyMgAAAAAAAAAAAAAAAAAAAAA=''"
  by (simp add: sextet_char_def base64_alphabet_def)

lemma demo_iv_text: "base64_encode [32, 33, 34, 35, 36, 37, 38, 39, 40, 41, 42, 43] = ''ICEiIyQlJicoKSor''"
  by (simp add: sextet_char_def base64_alphabet_def)

lemma demo_salt_text:
  "base64_encode [0, 1, 2, 3, 4, 5, 6, 7, 8, 9, 10, 11, 12, 13, 14, 15, 16, 17, 18, 19, 20, 21, 22,
     23, 24, 25, 26, 27, 28, 29, 30, 31] = ''AAECAwQFBgcICQoLDA0ODxAREhMUFRYXGBkaGxwdHh8=''"
  by (simp add: sextet_char_def base64_alphabet_def)

lemma demo_hmac:
  "computeHMAC demo_platform key
     (prepareHMACData ''AAECAwQFBgcICQoLDA0ODxAREhMUFRYXGBkaGxwdHh8='' ivText ctText)
     (demo_world f n cs) =
   (Inr ''AAECAwQFBgcICQoLDA0ODxAREhMUFRYXGBkaGxwdHh8='', demo_world f n (cs @ [SubtleSign]))"
  by (simp add: computeHMAC_def prepareHMACData_def demo_salt_bytes log_call_def
      demo_world_def demo_platform_def Let_def sextet_char_def base64_alphabet_def)

lemma demo_payload:
  "createEncryptedPayload demo_platform ''hunter2'' ''AAECAwQFBgcICQoLDA0ODxAREhMUFRYXGBkaGxwdHh8=''
     [32, 33, 34, 35, 36, 37, 38, 39, 40, 41, 42, 43] ek mk (demo_world f n cs) =
   (Inr (demo_envelope,
         (''AAECAwQFBgcICQoLDA0ODxAREhMUFRYXGBkaGxwdHh8='', ''ICEiIyQlJicoKSor'',
          ''aHVudGVyMgAAAAAAAAAAAAAAAAAAAAA='', ''AAECAwQFBgcICQoLDA0ODxAREhMUFRYXGBkaGxwdHh8='')),
    demo_world f n (cs @ [SubtleEncrypt, SubtleSign]))"
  by (simp add: createEncryptedPayload_def demo_encryptBuffer demo_hmac
      formatEncryptedPayload_def demo_envelope_def FORMAT_PREFIX_def FORMAT_VERSION_def
      FORMAT_SEPARATOR_def Let_def sextet_char_def base64_alphabet_def)

lemma demo_encrypt:
  "encrypt demo_platform ''hunter2'' ''DEV_SECRET_KEY'' (demo_world demo_secret_file 0 []) =
   (Inr demo_envelope,
    demo_world demo_secret_file 44 [DeriveKeysWithArgon2, Argon2Hash, SubtleEncrypt, SubtleSign])"
  by (simp add: encrypt_def validateEncryptionPrerequisites_def demo_secret validateSecretKey_def
      validateInputs_def generateEncryptionComponents_def demo_salt demo_iv demo_derive demo_payload)

lemma valid_AAAA: "isValidBase64 ''AAAA''"
  by (simp add: isValidBase64_def base64Regex_test_def Buffer_from_base64_def is_base64_char_def
      base64_alphabet_def)

lemma decode_AAAA: "base64_decode ''AAAA'' = [0, 0, 0]"
  by (simp add: base64_decode_def is_sextet_char_def is_base64_char_def char_sextet_def
      base64_alphabet_def)

lemma demo_key_valid: "validateSecretKey demo_key = Inr ()"
  by (simp add: validateSecretKey_def demo_key_def)

lemma demo_forged_kdf:
  "argon2_hash demo_platform demo_key (base64_decode (salt demo_forged_components))
     (BYTE_LENGTHS_SECRET_KEY + BYTE_LENGTHS_HMAC_KEY_LENGTH)
     ARGON2_MEMORY_COST ARGON2_TIME_COST ARGON2_PARALLELISM = Some (replicate 64 35)"
  by (simp add: demo_platform_def demo_forged_components_def decode_AAAA demo_key_def
      BYTE_LENGTHS_SECRET_KEY_def BYTE_LENGTHS_HMAC_KEY_LENGTH_def)

lemma demo_secret_fst:
  "fst (getSecretKeyFromEnvironment demo_platform ''DEV_SECRET_KEY'' (demo_world demo_secret_file n cs)) =
   Inr demo_key"
  by (simp add: demo_secret demo_key_def)

lemma replicate_32: "replicate 32 x = [x, x, x, x, x, x, x, x, x, x, x, x, x, x, x, x, x, x, x, x, x, x, x, x, x, x, x, x, x, x, x, x]"
  by (simp add: numeral_eq_Suc)

lemma encode_zeros32: "base64_encode (replicate 32 0) = ''AAAAAAAAAAAAAAAAAAAAAAAAAAAAAAAAAAAAAAAAAAA=''"
  by (simp add: replicate_32 sextet_char_def base64_alphabet_def)





lemma demo_fresh_key: "fresh_secret_key demo_platform (demo_world f 0 cs) = demo_mac"
  by (simp add: fresh_secret_key_def demo_world_def demo_platform_def BYTE_LENGTHS_SECRET_KEY_def
      upt_rec sextet_char_def base64_alphabet_def demo_mac_def)

lemma demo_content: "secret_file_content demo_platform (demo_world f n cs) = f"
  by (simp add: secret_file_content_def demo_world_def demo_platform_def)

lemma demo_env_key: "currentEnvSecretKey demo_platform = ''DEV_SECRET_KEY''"
  by (simp add: demo_platform_def)

lemma demo_env_key_plain: "\<forall>c \<in> set (currentEnvSecretKey demo_platform). \<not> is_line_terminator c"
  by (simp add: demo_env_key is_line_terminator_def)

lemma demo_aead_nonempty: "aead_output_nonempty demo_platform"
  by (simp add: aead_output_nonempty_def demo_platform_def)

lemma demo_sign_nonempty: "sign_output_nonempty demo_platform"
  by (simp add: sign_output_nonempty_def demo_platform_def)

lemma demo_iv_valid: "isValidBase64 ''ICEiIyQlJicoKSor''"
  by (simp add: isValidBase64_def base64Regex_test_def Buffer_from_base64_def is_base64_char_def
      base64_alphabet_def)

lemma demo_ct_valid: "isValidBase64 ''aHVudGVyMgAAAAAAAAAAAAAAAAAAAAA=''"
  by (simp add: isValidBase64_def base64Regex_test_def Buffer_from_base64_def is_base64_char_def
      base64_alphabet_def)

lemma zeros_mac_valid: "isValidBase64 ''AAAAAAAAAAAAAAAAAAAAAAAAAAAAAAAAAAAAAAAAAAA=''"
  by (simp add: isValidBase64_def base64Regex_test_def Buffer_from_base64_def is_base64_char_def
      base64_alphabet_def)

lemma demo_extended_text:
  "formatEncryptedPayload ''AAECAwQFBgcICQoLDA0ODxAREhMUFRYXGBkaGxwdHh8='' ''ICEiIyQlJicoKSor''
     ''aHVudGVyMgAAAAAAAAAAAAAAAAAAAAA='' ''AAECAwQFBgcICQoLDA0ODxAREhMUFRYXGBkaGxwdHh8='' @
   FORMAT_SEPARATOR # ''x'' = demo_extended"
  by (simp add: formatEncryptedPayload_def demo_extended_def demo_envelope_def FORMAT_PREFIX_def
      FORMAT_VERSION_def FORMAT_SEPARATOR_def)

lemma demo_wrong_mac_text:
  "formatEncryptedPayload ''AAECAwQFBgcICQoLDA0ODxAREhMUFRYXGBkaGxwdHh8='' ''ICEiIyQlJicoKSor''
     ''aHVudGVyMgAAAAAAAAAAAAAAAAAAAAA='' ''AAAAAAAAAAAAAAAAAAAAAAAAAAAAAAAAAAAAAAAAAAA='' @
   FORMAT_SEPARATOR # ''x'' = demo_wrong_mac"
  by (simp add: formatEncryptedPayload_def demo_wrong_mac_def FORMAT_PREFIX_def
      FORMAT_VERSION_def FORMAT_SEPARATOR_def)

lemma demo_extended_parse:
  "parseEncryptedData demo_extended =
   Inr \<lparr>version = ''v1'', salt = ''AAECAwQFBgcICQoLDA0ODxAREhMUFRYXGBkaGxwdHh8='',
        iv = ''ICEiIyQlJicoKSor'', cipherText = ''aHVudGVyMgAAAAAAAAAAAAAAAAAAAAA='',
        receivedHmac = ''AAECAwQFBgcICQoLDA0ODxAREhMUFRYXGBkaGxwdHh8=''\<rparr>"
  using parse_extended [OF demo_salt_valid demo_iv_valid demo_ct_valid demo_salt_valid, of "''x''"]
  by (simp add: demo_extended_text FORMAT_VERSION_def)

lemma demo_wrong_mac_parse: "parseEncryptedData demo_wrong_mac = Inr demo_wrong_mac_components"
  using parse_extended [OF demo_salt_valid demo_iv_valid demo_ct_valid zeros_mac_valid, of "''x''"]
  by (simp add: demo_wrong_mac_text FORMAT_VERSION_def demo_wrong_mac_components_def)

lemma demo_ct_bytes:
  "base64_decode ''aHVudGVyMgAAAAAAAAAAAAAAAAAAAAA='' =
   [104, 117, 110, 116, 101, 114, 50, 0, 0, 0, 0, 0, 0, 0, 0, 0, 0, 0, 0, 0, 0, 0, 0]"
  using base64_decode_encode
    [of "[104, 117, 110, 116, 101, 114, 50, 0, 0, 0, 0, 0, 0, 0, 0, 0, 0, 0, 0, 0, 0, 0, 0]"]
  by (simp only: demo_cipherText)

lemma demo_iv_bytes:
  "base64_decode ''ICEiIyQlJicoKSor'' = [32, 33, 34, 35, 36, 37, 38, 39, 40, 41, 42, 43]"
  using base64_decode_encode [of "[32, 33, 34, 35, 36, 37, 38, 39, 40, 41, 42, 43]"]
  by (simp only: demo_iv_text)

lemma demo_verify:
  "verifyHMACIntegrity demo_platform ''AAECAwQFBgcICQoLDA0ODxAREhMUFRYXGBkaGxwdHh8='' ivText ctText
     ''AAECAwQFBgcICQoLDA0ODxAREhMUFRYXGBkaGxwdHh8='' key (demo_world f n cs) =
   (Inr (), demo_world f n (cs @ [SubtleSign]))"
  by (simp add: verifyHMACIntegrity_def demo_hmac verifyHMAC_iff)

lemma demo_performDecryption:
  "performDecryption demo_platform ''ICEiIyQlJicoKSor'' key ''aHVudGVyMgAAAAAAAAAAAAAAAAAAAAA=''
     (demo_world f n cs) =
   (Inr [104, 117, 110, 116, 101, 114, 50], demo_world f n (cs @ [PerformDecryption, SubtleDecrypt]))"
  by (simp add: performDecryption_def decryptBuffer_def demo_ct_bytes demo_iv_bytes log_call_def
      demo_world_def demo_platform_def Let_def)

lemma char_of_eq: "of_char c = (n::nat) \<Longrightarrow> char_of n = c"
  by auto

lemma demo_decode_text:
  "textDecoder_decode demo_platform [104, 117, 110, 116, 101, 114, 50] = ''hunter2''"
  by (simp add: demo_platform_def) (intro conjI char_of_eq; simp)

lemma demo_extended_nonempty: "demo_extended \<noteq> []"
  by (simp add: demo_extended_def)

lemma demo_extended_decrypt:
  "decrypt demo_platform demo_extended ''DEV_SECRET_KEY'' (demo_world demo_secret_file 0 []) =
   (Inr ''hunter2'',
    demo_world demo_secret_file 0
      [DeriveKeysWithArgon2, Argon2Hash, SubtleSign, PerformDecryption, SubtleDecrypt])"
  by (simp add: decrypt_def demo_secret validateSecretKey_def validateInputs_def
      demo_extended_nonempty demo_extended_parse demo_derive demo_verify demo_performDecryption
      demo_decode_text)

lemma demo_wrong_mac_kdf:
  "argon2_hash demo_platform demo_key (base64_decode (salt demo_wrong_mac_components))
     (BYTE_LENGTHS_SECRET_KEY + BYTE_LENGTHS_HMAC_KEY_LENGTH)
     ARGON2_MEMORY_COST ARGON2_TIME_COST ARGON2_PARALLELISM = Some (replicate 64 64)"
  by (simp add: demo_platform_def demo_wrong_mac_components_def demo_salt_bytes demo_key_def
      BYTE_LENGTHS_SECRET_KEY_def BYTE_LENGTHS_HMAC_KEY_LENGTH_def)

lemma demo_wrong_mac_sign:
  "subtle_sign demo_platform (drop BYTE_LENGTHS_SECRET_KEY (replicate 64 64))
     (base64_decode (salt demo_wrong_mac_components) @ base64_decode (iv demo_wrong_mac_components) @
      base64_decode (cipherText demo_wrong_mac_components)) =
   Some [0, 1, 2, 3, 4, 5, 6, 7, 8, 9, 10, 11, 12, 13, 14, 15, 16, 17, 18, 19, 20, 21, 22, 23, 24,
         25, 26, 27, 28, 29, 30, 31]"
  by (simp add: demo_platform_def demo_wrong_mac_components_def demo_salt_bytes)

lemma decode_zeros_mac:
  "base64_decode ''AAAAAAAAAAAAAAAAAAAAAAAAAAAAAAAAAAAAAAAAAAA='' =
   [0, 0, 0, 0, 0, 0, 0, 0, 0, 0, 0, 0, 0, 0, 0, 0, 0, 0, 0, 0, 0, 0, 0, 0, 0, 0, 0, 0, 0, 0, 0, 0]"
  using base64_decode_encode [of "replicate 32 0"]
  by (simp only: encode_zeros32) (simp add: replicate_32)

lemma demo_wrong_mac_mismatch:
  "base64_decode (receivedHmac demo_wrong_mac_components) \<noteq>
   [0, 1, 2, 3, 4, 5, 6, 7, 8, 9, 10, 11, 12, 13, 14, 15, 16, 17, 18, 19, 20, 21, 22, 23, 24,
    25, 26, 27, 28, 29, 30, 31]"
  by (simp add: demo_wrong_mac_components_def decode_zeros_mac)











section \<open>Round trip (C1)\<close>

text \<open>
  C1 says that \<open>decrypt(encrypt(s, k), k)\<close> returns \<open>s\<close>. On the source, whatever \<open>encrypt\<close>
  returns is rejected by \<open>decrypt\<close> at envelope parsing: the envelope has five tokens after
  the prefix and \<open>validateEncryptedComponents\<close> expects \<open>EXPECTED_PARTS + 1 = 6\<close>. The result
  is "Expected 6 parts, got 5" (or "Invalid encrypted data format" should a library call have
  returned an empty buffer), never the plaintext.
\<close>

theorem decrypt_rejects_encrypt_output:
  assumes "fst (encrypt P s var w) = Inr env"
  shows "fst (decrypt P env var (snd (encrypt P s var w)))
           \<in> {Inl (InvalidPartCount 6 5), Inl InvalidEncryptedDataFormat}"
proof -
  obtain w' where enc: "encrypt P s var w = (Inr env, w')"
    using assms by (cases "encrypt P s var w") simp
  from encrypt_Inr [OF enc] obtain k w1 sb ivb buf sig where
    g: "getSecretKeyFromEnvironment P var w = (Inr k, w1)" and vk: "validateSecretKey k = Inr ()"
    and f: "files w' = files w1"
    and env: "env = formatEncryptedPayload (base64_encode sb) (base64_encode ivb)
                   (base64_encode buf) (base64_encode sig)"
    by blast
  from f g have "files w' = files (snd (getSecretKeyFromEnvironment P var w))" by simp
  from getSecret_again [OF this] g
  have g': "fst (getSecretKeyFromEnvironment P var w') = Inr k" by simp
  have p: "parseEncryptedData env =
           (if base64_encode sb = [] \<or> base64_encode ivb = [] \<or> base64_encode buf = [] \<or>
               base64_encode sig = []
            then Inl InvalidEncryptedDataFormat else Inl (InvalidPartCount 6 5))"
    unfolding env by (rule parse_formatted) (rule base64_encode_no_colon)+
  have ne: "env \<noteq> []" unfolding env by (rule formatted_nonempty)
  show ?thesis
  proof (cases "base64_encode sb = [] \<or> base64_encode ivb = [] \<or> base64_encode buf = [] \<or>
               base64_encode sig = []")
    case True
    with p have "parseEncryptedData env = Inl InvalidEncryptedDataFormat" by simp
    from decrypt_parse_error [OF g' vk ne this] enc show ?thesis by simp
  next
    case False
    with p have "parseEncryptedData env = Inl (InvalidPartCount 6 5)" by simp
    from decrypt_parse_error [OF g' vk ne this] enc show ?thesis by simp
  qed
qed

theorem decrypt_rejects_encrypt_output_witness:
  "fst (encrypt demo_platform ''hunter2'' ''DEV_SECRET_KEY'' (demo_world demo_secret_file 0 [])) =
     Inr demo_envelope \<and>
   fst (decrypt demo_platform demo_envelope ''DEV_SECRET_KEY''
          (snd (encrypt demo_platform ''hunter2'' ''DEV_SECRET_KEY'' (demo_world demo_secret_file 0 []))))
     \<in> {Inl (InvalidPartCount 6 5), Inl InvalidEncryptedDataFormat}"
proof -
  have h: "fst (encrypt demo_platform ''hunter2'' ''DEV_SECRET_KEY'' (demo_world demo_secret_file 0 [])) =
     Inr demo_envelope"
    by (simp add: demo_encrypt)
  from decrypt_rejects_encrypt_output [OF h] h show ?thesis by (rule conjI [rotated])
qed

section \<open>Fail fast on a malformed envelope (C4)\<close>

text \<open>
  \<open>parseEncryptedData\<close> accepts exactly the strings with the prefix whose remainder splits into
  six parts: the version, four valid base64 fields, and a sixth part that is not looked at.
\<close>

lemma length6E:
  assumes "length xs = 6"
  obtains a b c d e f where "xs = [a, b, c, d, e, f]"
proof -
  from assms obtain a r1 where "xs = a # r1" "length r1 = 5" by (cases xs) auto
  moreover from this obtain b c d e f where "r1 = [b, c, d, e, f]" by (auto elim: length5E)
  ultimately show ?thesis using that by blast
qed

lemma parse_accepts_iff:
  "(\<exists>comps. parseEncryptedData enc = Inr comps) =
   (prefix FORMAT_PREFIX enc \<and>
    (\<exists>slt ivv ct mac extra.
       split_sep FORMAT_SEPARATOR (drop (length FORMAT_PREFIX) enc) =
         [FORMAT_VERSION, slt, ivv, ct, mac, extra] \<and>
       isValidBase64 slt \<and> isValidBase64 ivv \<and> isValidBase64 ct \<and> isValidBase64 mac))"
proof
  assume "\<exists>comps. parseEncryptedData enc = Inr comps"
  then obtain comps where p: "parseEncryptedData enc = Inr comps" ..
  let ?parts = "split_sep FORMAT_SEPARATOR (drop (length FORMAT_PREFIX) enc)"
  from p obtain ver slt ivv ct mac where
    n: "nth_opt ?parts 0 = Some ver" "nth_opt ?parts 1 = Some slt" "nth_opt ?parts 2 = Some ivv"
       "nth_opt ?parts 3 = Some ct" "nth_opt ?parts 4 = Some mac"
    and v: "validateEncryptedComponents enc ?parts ver slt ivv ct mac = Inr ()"
    by (auto simp: parseEncryptedData_def Let_def split: option.splits if_splits sum.splits)
  from v have pre: "prefix FORMAT_PREFIX enc" and len: "length ?parts = 6"
    and ver: "ver = FORMAT_VERSION"
    and b: "isValidBase64 slt" "isValidBase64 ivv" "isValidBase64 ct" "isValidBase64 mac"
    by (auto simp: validateEncryptedComponents_def Let_def FORMAT_EXPECTED_PARTS_def
        split: if_splits)
  from len obtain a1 a2 a3 a4 a5 a6 where parts: "?parts = [a1, a2, a3, a4, a5, a6]"
    by (rule length6E)
  from n ver have "?parts = [FORMAT_VERSION, slt, ivv, ct, mac, a6]"
    by (simp add: parts nth_opt_def)
  with pre b show "prefix FORMAT_PREFIX enc \<and>
    (\<exists>slt ivv ct mac extra.
       split_sep FORMAT_SEPARATOR (drop (length FORMAT_PREFIX) enc) =
         [FORMAT_VERSION, slt, ivv, ct, mac, extra] \<and>
       isValidBase64 slt \<and> isValidBase64 ivv \<and> isValidBase64 ct \<and> isValidBase64 mac)"
    by blast
next
  assume a: "prefix FORMAT_PREFIX enc \<and>
    (\<exists>slt ivv ct mac extra.
       split_sep FORMAT_SEPARATOR (drop (length FORMAT_PREFIX) enc) =
         [FORMAT_VERSION, slt, ivv, ct, mac, extra] \<and>
       isValidBase64 slt \<and> isValidBase64 ivv \<and> isValidBase64 ct \<and> isValidBase64 mac)"
  then obtain slt ivv ct mac extra where pre: "prefix FORMAT_PREFIX enc"
    and parts: "split_sep FORMAT_SEPARATOR (drop (length FORMAT_PREFIX) enc) =
         [FORMAT_VERSION, slt, ivv, ct, mac, extra]"
    and b: "isValidBase64 slt" "isValidBase64 ivv" "isValidBase64 ct" "isValidBase64 mac"
    by blast
  note ne = b [THEN isValidBase64_nonempty]
  have val: "validateEncryptedComponents enc [FORMAT_VERSION, slt, ivv, ct, mac, extra]
               FORMAT_VERSION slt ivv ct mac = Inr ()"
    by (simp add: validateEncryptedComponents_def pre FORMAT_EXPECTED_PARTS_def b ne)
  have "parseEncryptedData enc =
        Inr \<lparr>version = FORMAT_VERSION, salt = slt, iv = ivv, cipherText = ct, receivedHmac = mac\<rparr>"
    unfolding parseEncryptedData_def Let_def parts
    by (simp add: nth_opt_def val FORMAT_VERSION_nonempty ne)
  then show "\<exists>comps. parseEncryptedData enc = Inr comps" ..
qed

text \<open>
  What \<open>parseEncryptedData\<close> rejects is rejected before any call: \<open>decrypt\<close> returns an
  error and the call log is unchanged. The error is a validation error, unless the
  secret-key variable could not be resolved, which is reported first.
\<close>

lemma decrypt_rejected_input_makes_no_call:
  assumes "parseEncryptedData enc = Inl e"
  shows "calls (snd (decrypt P enc var w)) = calls w \<and>
         (\<exists>e'. fst (decrypt P enc var w) = Inl e' \<and>
            (if fst (getSecretKeyFromEnvironment P var w) = Inl (SecretKeyVariableNotFound var)
             then e' = SecretKeyVariableNotFound var
             else kind_of e' = ValidationError))"
proof (cases "fst (getSecretKeyFromEnvironment P var w)")
  case (Inl x)
  then have x: "x = SecretKeyVariableNotFound var" by (rule getSecret_Inl)
  from decrypt_secret_error [OF Inl, of enc] Inl x show ?thesis
    by (simp add: getSecret_calls)
next
  case (Inr k)
  note d = decrypt_after_secret [OF Inr, of enc]
  show ?thesis
  proof (cases "validateSecretKey k")
    case (Inl x)
    with d Inr validateSecretKey_kind [OF Inl] show ?thesis by (simp add: getSecret_calls)
  next
    case vk: (Inr u)
    show ?thesis
    proof (cases "validateInputs enc k ''decrypt''")
      case (Inl x)
      with d Inr vk validateInputs_kind [OF Inl] show ?thesis by (simp add: getSecret_calls)
    next
      case vi: (Inr u')
      with d Inr vk assms parse_error_kind [OF assms] show ?thesis by (simp add: getSecret_calls)
    qed
  qed
qed

text \<open>
  C4 says that every input string that fails envelope validation, a wrong part count
  included, makes \<open>decrypt\<close> raise the validation error before any cryptographic work, so
  that \<open>deriveKeysWithArgon2\<close> and the AEAD cipher are never invoked on it. The source
  compares the number of parts with \<open>EXPECTED_PARTS + 1 = 6\<close> (the defect of C1 and C2) and
  never reads the sixth part. So an envelope with one more part appended, six parts where
  the format has the version and four fields, is not rejected: \<open>decrypt\<close> invokes
  \<open>deriveKeysWithArgon2\<close> and argon2 on it. For the envelope that \<open>encrypt\<close> returned for
  \<open>hunter2\<close> with \<open>:x\<close> appended, \<open>decrypt\<close> runs the key derivation, the HMAC and the AEAD
  cipher, and returns the plaintext.
\<close>

theorem extra_part_reaches_kdf:
  assumes secret: "fst (getSecretKeyFromEnvironment P var w) = Inr k" "validateSecretKey k = Inr ()"
    and fields: "isValidBase64 slt" "isValidBase64 ivv" "isValidBase64 ct" "isValidBase64 mac"
    and extra: "CHR '':'' \<notin> set extra"
  shows "\<not> isWellFormedEnvelope (formatEncryptedPayload slt ivv ct mac @ FORMAT_SEPARATOR # extra) \<and>
         (\<exists>rest. calls (snd (decrypt P (formatEncryptedPayload slt ivv ct mac @ FORMAT_SEPARATOR # extra)
                               var w)) =
                  calls w @ DeriveKeysWithArgon2 # Argon2Hash # rest)"
  using extended_not_well_formed [OF fields extra]
    decrypt_parsed_calls [OF secret parse_extended [OF fields extra]]
  by (rule conjI)

theorem extra_part_reaches_kdf_witness:
  "fst (getSecretKeyFromEnvironment demo_platform ''DEV_SECRET_KEY'' (demo_world demo_secret_file 0 [])) =
     Inr demo_key \<and>
   validateSecretKey demo_key = Inr () \<and>
   isValidBase64 ''AAECAwQFBgcICQoLDA0ODxAREhMUFRYXGBkaGxwdHh8='' \<and>
   isValidBase64 ''ICEiIyQlJicoKSor'' \<and>
   isValidBase64 ''aHVudGVyMgAAAAAAAAAAAAAAAAAAAAA='' \<and>
   CHR '':'' \<notin> set ''x'' \<and>
   formatEncryptedPayload ''AAECAwQFBgcICQoLDA0ODxAREhMUFRYXGBkaGxwdHh8='' ''ICEiIyQlJicoKSor''
     ''aHVudGVyMgAAAAAAAAAAAAAAAAAAAAA='' ''AAECAwQFBgcICQoLDA0ODxAREhMUFRYXGBkaGxwdHh8='' @
     FORMAT_SEPARATOR # ''x'' = demo_extended \<and>
   fst (encrypt demo_platform ''hunter2'' ''DEV_SECRET_KEY'' (demo_world demo_secret_file 0 [])) =
     Inr demo_envelope \<and>
   demo_extended = demo_envelope @ '':x'' \<and>
   \<not> isWellFormedEnvelope demo_extended \<and>
   decrypt demo_platform demo_extended ''DEV_SECRET_KEY'' (demo_world demo_secret_file 0 []) =
     (Inr ''hunter2'',
      demo_world demo_secret_file 0
        [DeriveKeysWithArgon2, Argon2Hash, SubtleSign, PerformDecryption, SubtleDecrypt])"
proof -
  have x: "CHR '':'' \<notin> set ''x''" by simp
  from extra_part_reaches_kdf [OF demo_secret_fst demo_key_valid demo_salt_valid demo_iv_valid
      demo_ct_valid demo_salt_valid x, of 0 "[]"]
  have n: "\<not> isWellFormedEnvelope demo_extended" by (simp add: demo_extended_text)
  have e: "fst (encrypt demo_platform ''hunter2'' ''DEV_SECRET_KEY'' (demo_world demo_secret_file 0 [])) =
     Inr demo_envelope" by (simp add: demo_encrypt)
  from n e x demo_secret_fst [of 0 "[]"] demo_key_valid demo_salt_valid demo_iv_valid demo_ct_valid
    demo_extended_text demo_extended_decrypt demo_extended_def
  show ?thesis by simp
qed

section \<open>Format of the envelope (C6)\<close>

text \<open>
  C6: every string returned by a successful \<open>encrypt\<close> matches
  \<open>^ENC2:v1:[A-Za-z0-9+/=]+:[A-Za-z0-9+/=]+:[A-Za-z0-9+/=]+:[A-Za-z0-9+/=]+$\<close>: the prefix,
  the version and four non-empty base64 fields. The salt and the IV are 32 and 12 random
  bytes; the ciphertext and the MAC are non-empty because the library never returns an
  empty AES-GCM output or signature.
\<close>

theorem encrypt_output_format:
  assumes "aead_output_nonempty P" "sign_output_nonempty P" "fst (encrypt P v var w) = Inr env"
  shows "matches_envelope_regex env"
proof -
  obtain w' where enc: "encrypt P v var w = (Inr env, w')"
    using assms(3) by (cases "encrypt P v var w") simp
  from encrypt_Inr [OF enc] obtain sb ivb buf sig where
    l1: "length sb = BYTE_LENGTHS_SALT" and l2: "length ivb = BYTE_LENGTHS_WEB_CRYPTO_IV"
    and e1: "\<exists>key. subtle_encrypt P key ivb (textEncoder_encode P v) = Some buf"
    and e2: "\<exists>key dat. subtle_sign P key dat = Some sig"
    and env: "env = formatEncryptedPayload (base64_encode sb) (base64_encode ivb)
                   (base64_encode buf) (base64_encode sig)"
    by blast
  from l1 have "sb \<noteq> []" by (auto simp: BYTE_LENGTHS_SALT_def)
  then have n1: "base64_encode sb \<noteq> []" by (rule base64_encode_nonempty)
  from l2 have "ivb \<noteq> []" by (auto simp: BYTE_LENGTHS_WEB_CRYPTO_IV_def)
  then have n2: "base64_encode ivb \<noteq> []" by (rule base64_encode_nonempty)
  from e1 assms(1) have "buf \<noteq> []" unfolding aead_output_nonempty_def by blast
  then have n3: "base64_encode buf \<noteq> []" by (rule base64_encode_nonempty)
  from e2 assms(2) have "sig \<noteq> []" unfolding sign_output_nonempty_def by blast
  then have n4: "base64_encode sig \<noteq> []" by (rule base64_encode_nonempty)
  show ?thesis unfolding env
    by (rule regex_formatted) (rule base64_encode_chars n1 n2 n3 n4)+
qed

theorem encrypt_output_format_witness:
  "aead_output_nonempty demo_platform \<and> sign_output_nonempty demo_platform \<and>
   fst (encrypt demo_platform ''hunter2'' ''DEV_SECRET_KEY'' (demo_world demo_secret_file 0 [])) =
     Inr demo_envelope \<and>
   matches_envelope_regex demo_envelope"
proof -
  have h: "fst (encrypt demo_platform ''hunter2'' ''DEV_SECRET_KEY'' (demo_world demo_secret_file 0 [])) =
     Inr demo_envelope"
    by (simp add: demo_encrypt)
  from encrypt_output_format [OF demo_aead_nonempty demo_sign_nonempty h] h
    demo_aead_nonempty demo_sign_nonempty
  show ?thesis by simp
qed

section \<open>MAC before AEAD (C5)\<close>

text \<open>
  C5: during \<open>decrypt\<close>, after key derivation the MAC is recomputed, under the second half
  of the derived key, over the bytes of the salt, then of the IV, then of the ciphertext,
  and compared with the bytes of the embedded MAC before AEAD decryption; whenever they
  differ, \<open>decrypt\<close> raises the one authentication error ("HMAC mismatch: invalid key or
  tampered data", whatever the cause) and \<open>performDecryption\<close> is never executed: the calls
  made are the key derivation, argon2 and the HMAC, in this order, and nothing else. (The
  parser accepts six-part strings only, see C1 and C2, so these are the inputs that reach
  the MAC check.)
\<close>

theorem decrypt_mac_mismatch:
  assumes secret: "fst (getSecretKeyFromEnvironment P var w) = Inr k" "validateSecretKey k = Inr ()"
    and parse: "parseEncryptedData enc = Inr comps"
    and kdf: "argon2_hash P k (base64_decode (salt comps))
                (BYTE_LENGTHS_SECRET_KEY + BYTE_LENGTHS_HMAC_KEY_LENGTH)
                ARGON2_MEMORY_COST ARGON2_TIME_COST ARGON2_PARALLELISM = Some out"
    and mac: "subtle_sign P (drop BYTE_LENGTHS_SECRET_KEY out)
                (base64_decode (salt comps) @ base64_decode (iv comps) @
                 base64_decode (cipherText comps)) = Some sig"
    and mismatch: "base64_decode (receivedHmac comps) \<noteq> sig"
  shows "fst (decrypt P enc var w) = Inl HmacMismatch \<and>
         calls (snd (decrypt P enc var w)) = calls w @ [DeriveKeysWithArgon2, Argon2Hash, SubtleSign]"
proof -
  from parse_Inr_valid [OF parse] have sv: "isValidBase64 (salt comps)" and ne: "enc \<noteq> []" by simp_all
  have vi: "validateInputs enc k ''decrypt'' = Inr ()"
    using ne getSecret_Inr_nonempty [OF secret(1)] by (simp add: validateInputs_def)
  from mac have m: "subtle_sign P (drop BYTE_LENGTHS_SECRET_KEY out)
      (prepareHMACData (salt comps) (iv comps) (cipherText comps)) = Some sig"
    by (simp only: prepareHMACData_def)
  from mismatch have v: "\<not> verifyHMAC (base64_encode sig) (receivedHmac comps)"
    unfolding verifyHMAC_iff base64_decode_encode by (rule not_sym)
  show ?thesis
    by (simp add: decrypt_after_secret [OF secret(1)] secret(2) vi parse deriveKeys_eval [OF sv] kdf
        verifyHMACIntegrity_eval m v getSecret_calls Let_def)
qed

theorem decrypt_mac_mismatch_witness:
  "fst (getSecretKeyFromEnvironment demo_platform ''DEV_SECRET_KEY'' (demo_world demo_secret_file 0 [])) =
     Inr demo_key \<and>
   validateSecretKey demo_key = Inr () \<and>
   parseEncryptedData demo_wrong_mac = Inr demo_wrong_mac_components \<and>
   argon2_hash demo_platform demo_key (base64_decode (salt demo_wrong_mac_components))
     (BYTE_LENGTHS_SECRET_KEY + BYTE_LENGTHS_HMAC_KEY_LENGTH)
     ARGON2_MEMORY_COST ARGON2_TIME_COST ARGON2_PARALLELISM = Some (replicate 64 64) \<and>
   subtle_sign demo_platform (drop BYTE_LENGTHS_SECRET_KEY (replicate 64 64))
     (base64_decode (salt demo_wrong_mac_components) @ base64_decode (iv demo_wrong_mac_components) @
      base64_decode (cipherText demo_wrong_mac_components)) =
     Some [0, 1, 2, 3, 4, 5, 6, 7, 8, 9, 10, 11, 12, 13, 14, 15, 16, 17, 18, 19, 20, 21, 22, 23, 24,
           25, 26, 27, 28, 29, 30, 31] \<and>
   base64_decode (receivedHmac demo_wrong_mac_components) \<noteq>
     [0, 1, 2, 3, 4, 5, 6, 7, 8, 9, 10, 11, 12, 13, 14, 15, 16, 17, 18, 19, 20, 21, 22, 23, 24,
      25, 26, 27, 28, 29, 30, 31] \<and>
   length (base64_decode (salt demo_wrong_mac_components)) = 32 \<and>
   fst (decrypt demo_platform demo_wrong_mac ''DEV_SECRET_KEY'' (demo_world demo_secret_file 0 [])) =
     Inl HmacMismatch \<and>
   calls (snd (decrypt demo_platform demo_wrong_mac ''DEV_SECRET_KEY''
                 (demo_world demo_secret_file 0 []))) =
     [DeriveKeysWithArgon2, Argon2Hash, SubtleSign]"
proof -
  have c: "calls (demo_world demo_secret_file 0 []) = []" by (simp add: demo_world_def)
  have l: "length (base64_decode (salt demo_wrong_mac_components)) = 32"
    by (simp add: demo_wrong_mac_components_def demo_salt_bytes)
  from decrypt_mac_mismatch [OF demo_secret_fst demo_key_valid demo_wrong_mac_parse
      demo_wrong_mac_kdf demo_wrong_mac_sign demo_wrong_mac_mismatch, of 0 "[]"]
    demo_secret_fst [of 0 "[]"] demo_key_valid demo_wrong_mac_parse demo_wrong_mac_kdf
    demo_wrong_mac_sign demo_wrong_mac_mismatch c l
  show ?thesis by simp
qed

section \<open>Deterministic key derivation (C8)\<close>

text \<open>
  C8: key derivation is deterministic. For a valid base64 salt, \<open>deriveKeysWithArgon2\<close>
  returns the same key set whatever the state of the world it is invoked in: the cipher key
  is bytes [0, 32) and the MAC key bytes [32, 64) of the 64-byte Argon2id output for
  (secret, decoded salt) with the configured costs, 32 bytes each.
\<close>

theorem deriveKeys_deterministic:
  assumes "isValidBase64 slt"
    and "argon2_hash P secretKey (base64_decode slt)
           (BYTE_LENGTHS_SECRET_KEY + BYTE_LENGTHS_HMAC_KEY_LENGTH)
           ARGON2_MEMORY_COST ARGON2_TIME_COST ARGON2_PARALLELISM = Some out"
    and "length out = 64"
  shows "fst (deriveKeysWithArgon2 P secretKey slt w) = Inr \<lparr>encryptionKey = take 32 out, hmacKey = drop 32 out\<rparr> \<and>
         fst (deriveKeysWithArgon2 P secretKey slt w') = fst (deriveKeysWithArgon2 P secretKey slt w) \<and>
         length (take 32 out) = 32 \<and> length (drop 32 out) = 32 \<and> take 32 out @ drop 32 out = out"
  using assms(2,3) by (simp add: deriveKeys_eval [OF assms(1)] BYTE_LENGTHS_SECRET_KEY_def)

theorem deriveKeys_deterministic_witness:
  "isValidBase64 ''AAAA'' \<and>
   argon2_hash demo_platform demo_key (base64_decode ''AAAA'')
     (BYTE_LENGTHS_SECRET_KEY + BYTE_LENGTHS_HMAC_KEY_LENGTH)
     ARGON2_MEMORY_COST ARGON2_TIME_COST ARGON2_PARALLELISM = Some (replicate 64 35) \<and>
   length (replicate 64 (35 :: byte)) = 64 \<and>
   fst (deriveKeysWithArgon2 demo_platform demo_key ''AAAA'' (demo_world demo_secret_file 0 [])) =
     Inr \<lparr>encryptionKey = take 32 (replicate 64 35), hmacKey = drop 32 (replicate 64 35)\<rparr> \<and>
   fst (deriveKeysWithArgon2 demo_platform demo_key ''AAAA'' (demo_world demo_secret_file 44 [SubtleSign])) =
     fst (deriveKeysWithArgon2 demo_platform demo_key ''AAAA'' (demo_world demo_secret_file 0 []))"
proof -
  have k: "argon2_hash demo_platform demo_key (base64_decode ''AAAA'')
     (BYTE_LENGTHS_SECRET_KEY + BYTE_LENGTHS_HMAC_KEY_LENGTH)
     ARGON2_MEMORY_COST ARGON2_TIME_COST ARGON2_PARALLELISM = Some (replicate 64 35)"
    using demo_forged_kdf by (simp add: demo_forged_components_def)
  have l: "length (replicate 64 (35 :: byte)) = 64" by simp
  from deriveKeys_deterministic [OF valid_AAAA k l, of "demo_world demo_secret_file 0 []"
      "demo_world demo_secret_file 44 [SubtleSign]"] valid_AAAA k l
  show ?thesis by blast
qed

section \<open>Tamper detection (C7)\<close>




section \<open>Generating and storing the secret key (C10)\<close>

text \<open>
  C10, as stated: \<open>generateAndStoreSecretKey\<close> always returns the freshly generated key,
  also when the store step was skipped because the variable already had a value. When the
  secret file holds the variable with an empty or blank value, the store step is skipped
  (the value is not \<open>undefined\<close>) and \<open>ensureSecretKeyExists\<close> then raises: the call
  does not return a key.
\<close>

theorem generateAndStoreSecretKey_blank_counterexample:
  "shouldSkipExistingKey ''DEV_SECRET_KEY='' ''DEV_SECRET_KEY'' True \<and>
   fst (generateAndStoreSecretKey demo_platform (demo_world ''DEV_SECRET_KEY='' 0 [])) =
     Inl (SecretKeyMissingInFile ''DEV_SECRET_KEY'') \<and>
   shouldSkipExistingKey ''DEV_SECRET_KEY=  '' ''DEV_SECRET_KEY'' True \<and>
   fst (generateAndStoreSecretKey demo_platform (demo_world ''DEV_SECRET_KEY=  '' 0 [])) =
     Inl (SecretKeyMissingInFile ''DEV_SECRET_KEY'')"
proof -
  have a: "extractKeyValue ''DEV_SECRET_KEY='' ''DEV_SECRET_KEY'' = Some []"
    by (simp add: extractKeyValue_def)
  have b: "extractKeyValue ''DEV_SECRET_KEY=  '' ''DEV_SECRET_KEY'' = Some ''  ''"
    by (simp add: extractKeyValue_def is_line_terminator_def)
  have ta: "js_trim [] = []" by (simp add: js_trim_def)
  have tb: "js_trim ''  '' = []" by (simp add: js_trim_def is_js_whitespace_def)
  have a': "extractKeyValue (secret_file_content demo_platform (demo_world ''DEV_SECRET_KEY='' 0 []))
              (currentEnvSecretKey demo_platform) = Some []"
    by (simp add: demo_content demo_env_key a)
  have b': "extractKeyValue (secret_file_content demo_platform (demo_world ''DEV_SECRET_KEY=  '' 0 []))
              (currentEnvSecretKey demo_platform) = Some ''  ''"
    by (simp add: demo_content demo_env_key b)
  from generateAndStore_skip [OF a'] generateAndStore_skip [OF b'] a b ta tb
  show ?thesis by (simp add: shouldSkipExistingKey_def demo_env_key)
qed

text \<open>
  C10, amended: \<open>generateAndStoreSecretKey\<close> returns the freshly generated base64 key
  whenever the variable has a non-blank value after the store step. When the variable
  already has a value, the store step is skipped and the file is left unchanged, so the
  stored secret remains the previous value and the returned key is written nowhere; the call
  returns the fresh key if that value is not blank and raises if it is blank. When the
  variable is absent, the fresh key is appended to the file and returned. (The variable
  name holds no line terminator.)
\<close>

theorem generateAndStoreSecretKey_result:
  assumes key: "\<forall>c \<in> set (currentEnvSecretKey P). \<not> is_line_terminator c"
  shows "(case extractKeyValue (secret_file_content P w) (currentEnvSecretKey P) of
            Some v \<Rightarrow>
              files (snd (generateAndStoreSecretKey P w)) = files w \<and>
              fst (generateAndStoreSecretKey P w) =
                (if js_trim v \<noteq> [] then Inr (fresh_secret_key P w)
                 else Inl (SecretKeyMissingInFile (currentEnvSecretKey P)))
          | None \<Rightarrow>
              fst (generateAndStoreSecretKey P w) = Inr (fresh_secret_key P w) \<and>
              files (snd (generateAndStoreSecretKey P w)) =
                (files w)(secretFilePath P \<mapsto>
                   addEnvironmentKey (secret_file_content P w) (currentEnvSecretKey P)
                     (fresh_secret_key P w)))"
proof (cases "extractKeyValue (secret_file_content P w) (currentEnvSecretKey P)")
  case None
  from generateAndStore_store [OF None key] None show ?thesis by simp
next
  case (Some v)
  from generateAndStore_skip [OF Some] Some show ?thesis by simp
qed

theorem generateAndStoreSecretKey_result_witness:
  "extractKeyValue (secret_file_content demo_platform (demo_world demo_secret_file 0 []))
     (currentEnvSecretKey demo_platform) = Some demo_key \<and>
   files (snd (generateAndStoreSecretKey demo_platform (demo_world demo_secret_file 0 []))) =
     files (demo_world demo_secret_file 0 []) \<and>
   fst (generateAndStoreSecretKey demo_platform (demo_world demo_secret_file 0 [])) = Inr demo_mac \<and>
   demo_mac \<noteq> demo_key"
proof -
  have x: "extractKeyValue (secret_file_content demo_platform (demo_world demo_secret_file 0 []))
     (currentEnvSecretKey demo_platform) = Some demo_key"
    by (simp add: demo_content demo_env_key demo_extract demo_key_def)
  have t: "js_trim demo_key \<noteq> []"
    by (simp add: demo_key_def js_trim_def is_js_whitespace_def)
  have d: "demo_mac \<noteq> demo_key" by (simp add: demo_mac_def demo_key_def)
  from generateAndStoreSecretKey_result [OF demo_env_key_plain, of "demo_world demo_secret_file 0 []"]
    x t d
  show ?thesis by (simp add: demo_fresh_key)
qed

section \<open>Concurrent stores (C3)\<close>

text \<open>The alternating schedule, evaluated four steps at a time.\<close>

lemmas race_defs = resume_def set_phase_def start_process_def two_stores_def store_A_def store_B_def
  shouldSkipExistingKey_def updateEnvironmentKey_def environmentKeyExists_def addEnvironmentKey_def
  ensureFileEndsWithNewline_def formatEnvironmentKeyValue_def Let_def

lemma race_started:
  "run [0, 1, 0, 1] two_stores =
     \<lparr>tasks = [(store_A, OpStat), (store_B, OpStat)],
      fileLocks = [''.env.secret'' \<mapsto> 1], disk = [''.env.secret'' \<mapsto> []]\<rparr>"
  by (simp add: race_defs)

lemma race_read:
  "run [0, 1, 0, 1] (run [0, 1, 0, 1] two_stores) =
     \<lparr>tasks = [(store_A, OpWrite ''A=1''), (store_B, OpWrite ''B=2'')],
      fileLocks = [''.env.secret'' \<mapsto> 1], disk = [''.env.secret'' \<mapsto> []]\<rparr>"
  by (simp add: race_started) (simp add: race_defs extractKeyValue_def)

lemma race_finished:
  "run [0, 1, 0, 1] (run [0, 1, 0, 1] (run [0, 1, 0, 1] two_stores)) =
     \<lparr>tasks = [(store_A, Returned True), (store_B, Returned True)],
      fileLocks = Map.empty, disk = [''.env.secret'' \<mapsto> ''B=2'']\<rparr>"
  by (simp add: race_read) (simp add: race_defs)

lemma run_append: "run (xs @ ys) s = run ys (run xs s)"
  by (induction xs arbitrary: s) simp_all

lemma race_schedule:
  "run [0, 1, 0, 1, 0, 1, 0, 1, 0, 1, 0, 1] two_stores =
   run [0, 1, 0, 1] (run [0, 1, 0, 1] (run [0, 1, 0, 1] two_stores))"
  using run_append [of "[0, 1, 0, 1]" "[0, 1, 0, 1, 0, 1, 0, 1]" two_stores]
    run_append [of "[0, 1, 0, 1]" "[0, 1, 0, 1]" "run [0, 1, 0, 1] two_stores"]
  by simp

text \<open>Run one after the other, the two calls keep both keys.\<close>

lemma sequential_stores_keep_both:
  "disk (run [0, 0, 0, 0, 0, 0, 1, 1, 1, 1, 1, 1] two_stores) ''.env.secret'' = Some ''A=1\<newline>B=2''"
  by (simp add: race_defs extractKeyValue_def is_line_terminator_def)

text \<open>
  C3 says that under every interleaving at most one mutating operation on a path is in
  flight at a time and that concurrent stores of distinct keys lose no update. Two calls
  issued in the same tick both read \<open>fileLocks\<close> before either has installed its lock (the
  lock is set only after the \<open>await\<close> of \<open>waitForFileLock\<close>), and neither checks again when
  it resumes. With the schedule below, in which the calls alternate, both operations are in
  flight after four steps; both read the empty file, the second write replaces the first,
  both calls resolve to \<open>true\<close>, and the file holds \<open>B=2\<close> only: the key \<open>A\<close> is lost.
\<close>

theorem concurrent_stores_lose_update:
  "in_flight_on ''.env.secret'' (run [0, 1, 0, 1] two_stores) = 2 \<and>
   all_returned (run [0, 1, 0, 1, 0, 1, 0, 1, 0, 1, 0, 1] two_stores) \<and>
   map snd (tasks (run [0, 1, 0, 1, 0, 1, 0, 1, 0, 1, 0, 1] two_stores)) = [Returned True, Returned True] \<and>
   disk (run [0, 1, 0, 1, 0, 1, 0, 1, 0, 1, 0, 1] two_stores) ''.env.secret'' = Some ''B=2'' \<and>
   extractKeyValue ''B=2'' ''A'' = None"
proof -
  have a: "in_flight_on ''.env.secret'' (run [0, 1, 0, 1] two_stores) = 2"
    by (simp only: race_started) (simp add: in_flight_on_def store_A_def store_B_def)
  have b: "extractKeyValue ''B=2'' ''A'' = None"
    by (simp add: extractKeyValue_def is_line_terminator_def)
  from a b show ?thesis
    by (simp only: race_schedule race_finished) (simp add: all_returned_def)
qed

end
